theory Spec2Isabelle
  imports Main
begin

section \<open>Python values\<close>

text \<open>
  A Python \<open>str\<close> is a sequence of Unicode code points; it is modelled as a list of
  natural numbers, one per code point.  \<open>str\<close> turns an ASCII literal of the source into
  that representation.
\<close>

type_synonym pystr = "nat list"

definition str :: "string \<Rightarrow> pystr" where
  "str s = map of_char s"

text \<open>\<open>digits n\<close> and \<open>str_int i\<close> are Python's \<open>str(i)\<close> (the same text as \<open>int.__repr__\<close>).\<close>

fun digits :: "nat \<Rightarrow> pystr" where
  "digits n = (if n < 10 then [48 + n] else digits (n div 10) @ [48 + n mod 10])"

declare digits.simps [simp del]

definition str_int :: "int \<Rightarrow> pystr" where
  "str_int i = (if i < 0 then 45 # digits (nat (- i)) else digits (nat i))"

text \<open>
  The exceptions that the program can meet, each with its message.  \<open>OSError\<close> stands for
  the class and its subclasses (\<open>IOError\<close> is another name of it), \<open>ValueError\<close> likewise
  (\<open>UnicodeEncodeError\<close> is one of them); \<open>JSONDecodeError\<close> is kept apart.
\<close>

datatype exn =
    OSError pystr
  | TypeError pystr
  | ValueError pystr
  | OverflowError pystr
  | JSONDecodeError pystr
  | Exception pystr

text \<open>
  The conversion of an integer to text is limited: \<open>int.__repr__\<close> raises \<open>ValueError\<close> for an
  integer of more than 4300 decimal digits (the default of \<open>sys.set_int_max_str_digits\<close>).
  \<open>int_repr\<close> is the conversion with its limit; \<open>str_int\<close> is the text it gives below the
  limit.
\<close>

definition INT_MAX_STR_DIGITS :: nat where
  "INT_MAX_STR_DIGITS = 4300"

definition int_fits :: "int \<Rightarrow> bool" where
  "int_fits i \<longleftrightarrow> length (digits (nat \<bar>i\<bar>)) \<le> INT_MAX_STR_DIGITS"

definition int_repr :: "int \<Rightarrow> exn + pystr" where
  "int_repr i =
     (if int_fits i then Inr (str_int i)
      else Inl (ValueError (str (''Exceeds the limit (4300 digits) for integer string conversion; '' @
                                 ''use sys.set_int_max_str_digits() to increase the limit''))))"

text \<open>
  The values of type \<open>Any\<close> that can sit in \<open>header\<close> and \<open>features\<close>.  \<open>PObject n\<close> is an
  object of any other class, \<open>n\<close> being the name of the class (a \<open>set\<close>, a \<open>bytes\<close>, ...).
  \<open>PList\<close> is a list or a tuple, which the encoder writes alike.  A dictionary keeps its
  insertion order, so it is a list of pairs.  Floats and cyclic structures are not
  modelled.
\<close>

datatype pyval =
    PNone
  | PBool bool
  | PInt int
  | PStr pystr
  | PList "pyval list"
  | PDict "(pyval \<times> pyval) list"
  | PObject pystr

section \<open>The data classes\<close>

record AddonPlugin =
  id :: pystr
  code :: pystr
  owner :: pystr
  start_date :: pystr
  end_date :: pystr

record LicenseId =
  id :: pystr
  license_type :: pystr
  product :: pystr
  product_id :: pystr
  edition_id :: pystr
  seats :: int
  start_date :: pystr
  end_date :: pystr
  issued_on :: pystr
  owner :: pystr
  add_ons :: "AddonPlugin list"
  features :: "pyval list"

record LicensePayload =
  name :: pystr
  email :: pystr
  licenses :: "LicenseId list"

record License =
  header :: "(pystr \<times> pyval) list"
  payload :: LicensePayload
  signature :: pystr

text \<open>The constructors, with the defaults of the \<open>dataclass\<close> fields.\<close>

definition LicenseId_new :: "pystr \<Rightarrow> pystr \<Rightarrow> pystr \<Rightarrow> LicenseId" where
  "LicenseId_new start_date' end_date' issued_on' =
     \<lparr> LicenseId.id = str ''48-2437-ACBD-29'',
       license_type = str ''named'',
       product = str ''IDA'',
       product_id = str ''IDAPRO'',
       edition_id = str ''ida-pro'',
       seats = 1,
       LicenseId.start_date = start_date',
       LicenseId.end_date = end_date',
       issued_on = issued_on',
       LicenseId.owner = str ''0x0060'',
       add_ons = [],
       features = [] \<rparr>"

definition LicensePayload_new :: LicensePayload where
  "LicensePayload_new =
     \<lparr> name = str ''0x0060'', email = str ''ren@0x0060.dev'', licenses = [] \<rparr>"

definition default_signature :: pystr where
  "default_signature = str
     (''3238353E900849B6547801BBF8AF31E7822CB4B74A6F54DE03F5E9DFF96AC5DA'' @
      ''981B50A62EAAF021F2052CC44498107B36C2D3B34C86B7B48084313189274A1D'' @
      ''5D1F45C1F512820C508EA22ABA43EC584E6FEFF6BA9969DD428268F40859AFFE'' @
      ''8A2E5BB66CA9C71E78FCAC14E3168D26D11952A71C0F330251D9D74FFC67BD24'')"

definition License_new :: "LicensePayload \<Rightarrow> License" where
  "License_new payload' =
     \<lparr> header = [(str ''version'', PInt 1)],
       payload = payload',
       signature = default_signature \<rparr>"

subsection \<open>\<open>to_dict\<close>\<close>

definition AddonPlugin_to_dict :: "AddonPlugin \<Rightarrow> pyval" where
  "AddonPlugin_to_dict self = PDict
     [ (PStr (str ''id''), PStr (AddonPlugin.id self)),
       (PStr (str ''code''), PStr (code self)),
       (PStr (str ''owner''), PStr (AddonPlugin.owner self)),
       (PStr (str ''start_date''), PStr (AddonPlugin.start_date self)),
       (PStr (str ''end_date''), PStr (AddonPlugin.end_date self)) ]"

definition LicenseId_to_dict :: "LicenseId \<Rightarrow> pyval" where
  "LicenseId_to_dict self = PDict
     [ (PStr (str ''id''), PStr (LicenseId.id self)),
       (PStr (str ''license_type''), PStr (license_type self)),
       (PStr (str ''product''), PStr (product self)),
       (PStr (str ''product_id''), PStr (product_id self)),
       (PStr (str ''edition_id''), PStr (edition_id self)),
       (PStr (str ''seats''), PInt (seats self)),
       (PStr (str ''start_date''), PStr (LicenseId.start_date self)),
       (PStr (str ''end_date''), PStr (LicenseId.end_date self)),
       (PStr (str ''issued_on''), PStr (issued_on self)),
       (PStr (str ''owner''), PStr (LicenseId.owner self)),
       (PStr (str ''add_ons''), PList (map AddonPlugin_to_dict (add_ons self))),
       (PStr (str ''features''), PList (features self)) ]"

definition LicensePayload_to_dict :: "LicensePayload \<Rightarrow> pyval" where
  "LicensePayload_to_dict self = PDict
     [ (PStr (str ''name''), PStr (name self)),
       (PStr (str ''email''), PStr (email self)),
       (PStr (str ''licenses''), PList (map LicenseId_to_dict (licenses self))) ]"

definition License_to_dict :: "License \<Rightarrow> pyval" where
  "License_to_dict self = PDict
     [ (PStr (str ''header''), PDict (map (\<lambda>(k, v). (PStr k, v)) (header self))),
       (PStr (str ''payload''), LicensePayload_to_dict (payload self)),
       (PStr (str ''signature''), PStr (signature self)) ]"

section \<open>The time provider and the generator\<close>

text \<open>
  A \<open>TimeProvider\<close> is any object with the two methods.  A method may read and change a
  state of the provider's own (a clock, a counter), and it may raise: a call takes the
  state and returns the result, or the exception, with the new state.
\<close>

type_synonym ('a, 's) call = "'s \<Rightarrow> (exn + 'a) \<times> 's"

record 's TimeProvider =
  current_time :: "(pystr, 's) call"
  future_time :: "int \<Rightarrow> (pystr, 's) call"

definition addon_plugins :: "pystr list" where
  "addon_plugins =
     [ str ''HEXX86'', str ''HEXX64'', str ''HEXARM'', str ''HEXARM64'',
       str ''HEXMIPS'', str ''HEXMIPS64'', str ''HEXPPC'', str ''HEXPPC64'',
       str ''HEXRV64'', str ''HEXARC'', str ''HEXARC64'' ]"

text \<open>
  The loop \<open>for i, plugin in enumerate(addon_plugins)\<close>: \<open>i\<close> is the index of the next
  plugin, and the licence identification is the one being filled.
\<close>

fun append_addons :: "int \<Rightarrow> pystr list \<Rightarrow> pystr \<Rightarrow> pystr \<Rightarrow> LicenseId \<Rightarrow> LicenseId" where
  "append_addons i [] start_date' end_date' license_id = license_id"
| "append_addons i (plugin # rest) start_date' end_date' license_id =
     (let addon = \<lparr> AddonPlugin.id = str ''48-1337-DEAD-'' @ str_int i,
                     code = plugin,
                     AddonPlugin.owner = LicenseId.id license_id,
                     AddonPlugin.start_date = start_date',
                     AddonPlugin.end_date = end_date' \<rparr>
      in append_addons (i + 1) rest start_date' end_date'
           (license_id \<lparr> add_ons := add_ons license_id @ [addon] \<rparr>))"

definition build_license :: "pystr \<Rightarrow> pystr \<Rightarrow> License" where
  "build_license start_date' end_date' =
     (let license_id = LicenseId_new start_date' end_date' start_date';
          license_id = append_addons 0 addon_plugins start_date' end_date' license_id;
          payload' = LicensePayload_new;
          payload' = payload' \<lparr> licenses := licenses payload' @ [license_id] \<rparr>
      in License_new payload')"

definition generate_license :: "'s TimeProvider \<Rightarrow> (License, 's) call" where
  "generate_license time_provider s =
     (case current_time time_provider s of
        (Inl e, s1) \<Rightarrow> (Inl e, s1)
      | (Inr start_date', s1) \<Rightarrow>
          (case future_time time_provider 10 s1 of
             (Inl e, s2) \<Rightarrow> (Inl e, s2)
           | (Inr end_date', s2) \<Rightarrow> (Inr (build_license start_date' end_date'), s2)))"

section \<open>The system clock and the default provider\<close>

text \<open>
  A \<open>datetime\<close> is kept as the proleptic Gregorian ordinal of its date (the value of
  \<open>toordinal()\<close>; day 1 is 0001-01-01 and day 3652059 is 9999-12-31) with its time of
  day.  Year, month and day are computed from the ordinal the way the library's
  \<open>_ord2ymd\<close> does.
\<close>

record datetime =
  ordinal :: int
  hour :: nat
  minute :: nat
  second :: nat
  microsecond :: nat

definition MAXORDINAL :: int where
  "MAXORDINAL = 3652059"

text \<open>
  The ordinal of 1000-01-01 (\<open>date(1000, 1, 1).toordinal()\<close>).
\<close>

definition ORDINAL_1000 :: int where
  "ORDINAL_1000 = 364878"

definition DAYS_IN_MONTH :: "int list" where
  "DAYS_IN_MONTH = [-1, 31, 28, 31, 30, 31, 30, 31, 31, 30, 31, 30, 31]"

definition DAYS_BEFORE_MONTH :: "int list" where
  "DAYS_BEFORE_MONTH = [-1, 0, 31, 59, 90, 120, 151, 181, 212, 243, 273, 304, 334]"

definition ord2ymd :: "int \<Rightarrow> int \<times> int \<times> int" where
  "ord2ymd n0 =
     (let n = n0 - 1;
          n400 = n div 146097; n = n mod 146097;
          year = n400 * 400 + 1;
          n100 = n div 36524; n = n mod 36524;
          n4 = n div 1461; n = n mod 1461;
          n1 = n div 365; n = n mod 365;
          year = year + n100 * 100 + n4 * 4 + n1
      in if n1 = 4 \<or> n100 = 4 then (year - 1, 12, 31)
         else
           let leapyear = (n1 = 3 \<and> (n4 \<noteq> 24 \<or> n100 = 3));
               month = (n + 50) div 32;
               preceding = DAYS_BEFORE_MONTH ! nat month + (if month > 2 \<and> leapyear then 1 else 0)
           in if preceding > n
              then let month = month - 1;
                       preceding = preceding -
                         (DAYS_IN_MONTH ! nat month + (if month = 2 \<and> leapyear then 1 else 0))
                   in (year, month, n - preceding + 1)
              else (year, month, n - preceding + 1))"

text \<open>
  \<open>strftime("%Y-%m-%d %H:%M:%S")\<close>.  Month, day, hour, minute and second are padded with
  zeros to two digits.  The year is written by the C library: glibc writes it without
  padding (the year 1 is \<open>1\<close>), other libraries pad it to four digits.  The model is glibc's;
  the libraries agree from the year 1000 on.
\<close>

definition zfill :: "nat \<Rightarrow> pystr \<Rightarrow> pystr" where
  "zfill width s = replicate (width - length s) 48 @ s"

definition strftime :: "datetime \<Rightarrow> pystr" where
  "strftime dt =
     (case ord2ymd (ordinal dt) of (y, m, d) \<Rightarrow>
        str_int y @ str ''-'' @ zfill 2 (str_int m) @ str ''-'' @ zfill 2 (str_int d) @
        str '' '' @ zfill 2 (digits (hour dt)) @ str '':'' @ zfill 2 (digits (minute dt)) @
        str '':'' @ zfill 2 (digits (second dt)))"

text \<open>
  \<open>timedelta(days=n)\<close> refuses more than 999999999 days, and \<open>datetime + timedelta\<close>
  refuses a date outside the years 1 to 9999; both raise \<open>OverflowError\<close>.
\<close>

definition timedelta_days :: "int \<Rightarrow> exn + int" where
  "timedelta_days n =
     (if \<bar>n\<bar> > 2147483647 then Inl (OverflowError (str ''Python int too large to convert to C int''))
      else if \<bar>n\<bar> > 999999999
      then Inl (OverflowError (str ''days='' @ str_int n @ str ''; must have magnitude <= 999999999''))
      else Inr n)"

definition datetime_add :: "datetime \<Rightarrow> int \<Rightarrow> exn + datetime" where
  "datetime_add dt days =
     (let n = ordinal dt + days
      in if 1 \<le> n \<and> n \<le> MAXORDINAL then Inr (dt \<lparr> ordinal := n \<rparr>)
         else Inl (OverflowError (str ''date value out of range'')))"

text \<open>
  What the program can see and change outside itself: the system clock, the file system
  and the two output streams.  \<open>clock w k\<close> is what the \<open>k\<close>-th call of \<open>datetime.now()\<close>
  reads, and \<open>reads\<close> counts the calls made so far.  \<open>open_error w f\<close> is the exception that
  opening \<open>f\<close> for writing raises, if it raises: an \<open>OSError\<close> when the system refuses, a
  \<open>ValueError\<close> for a name that cannot be the name of a file.  \<open>write_error w f t\<close> tells
  what happens when the text \<open>t\<close> is written to the opened file \<open>f\<close> and the file is closed:
  either all of it is stored, or an \<open>OSError\<close> is raised, and the answer is what has been
  stored and the text of the error (a full device stores nothing of a text that is not
  empty).
\<close>

record world =
  clock :: "nat \<Rightarrow> datetime"
  reads :: nat
  open_error :: "pystr \<Rightarrow> exn option"
  write_error :: "pystr \<Rightarrow> pystr \<Rightarrow> (pystr \<times> pystr) option"
  files :: "pystr \<Rightarrow> pystr option"
  stdout :: pystr
  stderr :: pystr

definition datetime_now :: "world \<Rightarrow> datetime \<times> world" where
  "datetime_now w = (clock w (reads w), w \<lparr> reads := reads w + 1 \<rparr>)"

definition DefaultTimeProvider_current_time :: "(pystr, world) call" where
  "DefaultTimeProvider_current_time w =
     (case datetime_now w of (now, w') \<Rightarrow> (Inr (strftime now), w'))"

definition DefaultTimeProvider_future_time :: "int \<Rightarrow> (pystr, world) call" where
  "DefaultTimeProvider_future_time years w =
     (case datetime_now w of (now, w') \<Rightarrow>
        (case timedelta_days (365 * years) of
           Inl e \<Rightarrow> (Inl e, w')
         | Inr days \<Rightarrow>
             (case datetime_add now days of
                Inl e \<Rightarrow> (Inl e, w')
              | Inr future \<Rightarrow> (Inr (strftime future), w'))))"

text \<open>The default of the parameter \<open>years\<close> of \<open>future_time\<close>.\<close>

definition future_time_default_years :: int where
  "future_time_default_years = 999999"



section \<open>Writing the licence\<close>

subsection \<open>\<open>json.dump\<close> with \<open>separators=(',', ':')\<close>\<close>

text \<open>
  Strings are written by \<open>encode_basestring_ascii\<close>: a printable ASCII character other than
  the quote and the backslash stands for itself, the others are escaped, a code point above
  \<open>0xFFFF\<close> as a surrogate pair.  Code points are given by number: 34 is the quote, 92 the
  backslash, 117 the letter u.
\<close>

definition hex_digit :: "nat \<Rightarrow> nat" where
  "hex_digit d = (if d < 10 then 48 + d else 87 + d)"

definition hex4 :: "nat \<Rightarrow> pystr" where
  "hex4 n = [hex_digit (n div 4096 mod 16), hex_digit (n div 256 mod 16),
             hex_digit (n div 16 mod 16), hex_digit (n mod 16)]"

definition escape :: "nat \<Rightarrow> pystr" where
  "escape c =
     (if c = 92 then [92, 92]
      else if c = 34 then [92, 34]
      else if 32 \<le> c \<and> c \<le> 126 then [c]
      else if c = 8 then [92, 98]
      else if c = 12 then [92, 102]
      else if c = 10 then [92, 110]
      else if c = 13 then [92, 114]
      else if c = 9 then [92, 116]
      else if c < 65536 then [92, 117] @ hex4 c
      else let n = c - 65536;
               s1 = 55296 + (n div 1024) mod 1024;
               s2 = 56320 + n mod 1024
           in [92, 117] @ hex4 s1 @ [92, 117] @ hex4 s2)"

definition encode_basestring_ascii :: "pystr \<Rightarrow> pystr" where
  "encode_basestring_ascii s = [34] @ concat (map escape s) @ [34]"

text \<open>
  The encoder is a generator, and \<open>json.dump\<close> writes each chunk as it comes: when a value
  cannot be encoded, what was produced before it has been written.  So the result of the
  encoder is the text produced, with the exception that stopped it, if one did.
\<close>

type_synonym chunks = "pystr \<times> exn option"

definition seq_chunks :: "chunks \<Rightarrow> chunks \<Rightarrow> chunks" where
  "seq_chunks a b = (case snd a of Some e \<Rightarrow> a | None \<Rightarrow> (fst a @ fst b, snd b))"

text \<open>
  The keys of a dictionary: a string is written as it is, a boolean, \<open>None\<close> and an integer
  as their text; any other key raises \<open>TypeError\<close> with the name of its class (a sequence
  that is a key is a tuple, a list cannot be one).
\<close>

fun class_name :: "pyval \<Rightarrow> pystr" where
  "class_name PNone = str ''NoneType''"
| "class_name (PBool b) = str ''bool''"
| "class_name (PInt i) = str ''int''"
| "class_name (PStr s) = str ''str''"
| "class_name (PList l) = str ''tuple''"
| "class_name (PDict d) = str ''dict''"
| "class_name (PObject n) = n"

fun key_text :: "pyval \<Rightarrow> exn + pystr" where
  "key_text (PStr s) = Inr s"
| "key_text (PBool b) = Inr (if b then str ''true'' else str ''false'')"
| "key_text PNone = Inr (str ''null'')"
| "key_text (PInt i) = int_repr i"
| "key_text key = Inl (TypeError
     (str ''keys must be str, int, float, bool or None, not '' @ class_name key))"

fun iterencode :: "pyval \<Rightarrow> chunks"
  and iterencode_list :: "bool \<Rightarrow> pyval list \<Rightarrow> chunks"
  and iterencode_dict :: "bool \<Rightarrow> (pyval \<times> pyval) list \<Rightarrow> chunks"
where
  "iterencode (PStr s) = (encode_basestring_ascii s, None)"
| "iterencode PNone = (str ''null'', None)"
| "iterencode (PBool b) = (if b then str ''true'' else str ''false'', None)"
| "iterencode (PInt i) = (case int_repr i of Inr s \<Rightarrow> (s, None) | Inl e \<Rightarrow> ([], Some e))"
| "iterencode (PList lst) =
     (if lst = [] then (str ''[]'', None)
      else seq_chunks (str ''['', None) (seq_chunks (iterencode_list True lst) (str '']'', None)))"
| "iterencode (PDict dct) =
     (if dct = [] then (str ''{}'', None)
      else seq_chunks (str ''{'', None) (seq_chunks (iterencode_dict True dct) (str ''}'', None)))"
| "iterencode (PObject n) =
     ([], Some (TypeError (str ''Object of type '' @ n @ str '' is not JSON serializable'')))"
| "iterencode_list first [] = ([], None)"
| "iterencode_list first (v # rest) =
     seq_chunks ((if first then [] else str '',''), None)
       (seq_chunks (iterencode v) (iterencode_list False rest))"
| "iterencode_dict first [] = ([], None)"
| "iterencode_dict first ((key, v) # rest) =
     (case key_text key of
        Inl e \<Rightarrow> ([], Some e)
      | Inr k \<Rightarrow>
          seq_chunks ((if first then [] else str '',''), None)
            (seq_chunks (encode_basestring_ascii k @ str '':'', None)
               (seq_chunks (iterencode v) (iterencode_dict False rest))))"

subsection \<open>\<open>FileWriter.write_json\<close> and \<open>main\<close>\<close>




section \<open>The canonical text of a licence\<close>

text \<open>
  The file format as the specification gives it: one object per entity, the keys in the
  order of the schema, \<open>,\<close> between fields and \<open>:\<close> between a key and its value, nothing
  else.  A string is written as \<open>encode_basestring_ascii\<close> writes it; the header values and
  the features are opaque and are written as the encoder writes them.
\<close>

fun comma_join :: "pystr list \<Rightarrow> pystr" where
  "comma_join [] = []"
| "comma_join [x] = x"
| "comma_join (x # y # rest) = x @ str '','' @ comma_join (y # rest)"

definition canonical_addon :: "AddonPlugin \<Rightarrow> pystr" where
  \<open>canonical_addon a =
     str ''{"id":'' @ encode_basestring_ascii (AddonPlugin.id a) @
     str '',"code":'' @ encode_basestring_ascii (code a) @
     str '',"owner":'' @ encode_basestring_ascii (AddonPlugin.owner a) @
     str '',"start_date":'' @ encode_basestring_ascii (AddonPlugin.start_date a) @
     str '',"end_date":'' @ encode_basestring_ascii (AddonPlugin.end_date a) @
     str ''}''\<close>

definition canonical_license_id :: "LicenseId \<Rightarrow> pystr" where
  \<open>canonical_license_id l =
     str ''{"id":'' @ encode_basestring_ascii (LicenseId.id l) @
     str '',"license_type":'' @ encode_basestring_ascii (license_type l) @
     str '',"product":'' @ encode_basestring_ascii (product l) @
     str '',"product_id":'' @ encode_basestring_ascii (product_id l) @
     str '',"edition_id":'' @ encode_basestring_ascii (edition_id l) @
     str '',"seats":'' @ str_int (seats l) @
     str '',"start_date":'' @ encode_basestring_ascii (LicenseId.start_date l) @
     str '',"end_date":'' @ encode_basestring_ascii (LicenseId.end_date l) @
     str '',"issued_on":'' @ encode_basestring_ascii (issued_on l) @
     str '',"owner":'' @ encode_basestring_ascii (LicenseId.owner l) @
     str '',"add_ons":['' @ comma_join (map canonical_addon (add_ons l)) @
     str ''],"features":['' @ comma_join (map (\<lambda>v. fst (iterencode v)) (features l)) @
     str '']}''\<close>

definition canonical_payload :: "LicensePayload \<Rightarrow> pystr" where
  \<open>canonical_payload p =
     str ''{"name":'' @ encode_basestring_ascii (name p) @
     str '',"email":'' @ encode_basestring_ascii (email p) @
     str '',"licenses":['' @ comma_join (map canonical_license_id (licenses p)) @
     str '']}''\<close>

definition canonical_header :: "(pystr \<times> pyval) list \<Rightarrow> pystr" where
  \<open>canonical_header h =
     str ''{'' @
     comma_join (map (\<lambda>(k, v). encode_basestring_ascii k @ str '':'' @ fst (iterencode v)) h) @
     str ''}''\<close>

definition canonical_license :: "License \<Rightarrow> pystr" where
  \<open>canonical_license l =
     str ''{"header":'' @ canonical_header (header l) @
     str '',"payload":'' @ canonical_payload (payload l) @
     str '',"signature":'' @ encode_basestring_ascii (signature l) @
     str ''}''\<close>

text \<open>
  The values that the encoder can write: no object of another class, only strings,
  integers, booleans and \<open>None\<close> as the keys of a dictionary, and no integer beyond the
  limit of the conversion to text.  A licence is well formed when its header values and
  its features are such values and its seat counts are within that limit.
\<close>

fun json_key :: "pyval \<Rightarrow> bool" where
  "json_key (PInt i) = int_fits i"
| "json_key (PList l) = False"
| "json_key (PDict d) = False"
| "json_key (PObject n) = False"
| "json_key k = True"

fun json_value :: "pyval \<Rightarrow> bool" where
  "json_value (PInt i) = int_fits i"
| "json_value (PList l) = (\<forall>v \<in> set l. json_value v)"
| "json_value (PDict d) = (\<forall>kv \<in> set d. json_key (fst kv) \<and> json_value (snd kv))"
| "json_value (PObject n) = False"
| "json_value v = True"

definition well_formed :: "License \<Rightarrow> bool" where
  "well_formed l \<longleftrightarrow>
     (\<forall>kv \<in> set (header l). json_value (snd kv)) \<and>
     (\<forall>lid \<in> set (licenses (payload l)).
        int_fits (seats lid) \<and> (\<forall>v \<in> set (features lid). json_value v))"



text \<open>
  Three worlds for examples.  In \<open>example_world\<close> the clock stands at 2024-01-01 00:00:00
  (day 738886), there are no files, every file can be opened and takes what is written.
  \<open>readonly_world\<close> is the same but no file can be opened for writing; in
  \<open>full_device_world\<close> files can be opened but the device is full.
\<close>

definition example_now :: datetime where
  "example_now = \<lparr> ordinal = 738886, hour = 0, minute = 0, second = 0, microsecond = 0 \<rparr>"

definition example_world :: world where
  "example_world =
     \<lparr> clock = (\<lambda>k. example_now), reads = 0, open_error = (\<lambda>f. None),
       write_error = (\<lambda>f t. None), files = (\<lambda>f. None), stdout = [], stderr = [] \<rparr>"







section \<open>Reading the licence back\<close>

text \<open>
  The program never reads the file it writes.  The reader taken here is the decoder of the
  standard library, \<open>json.loads\<close>, the counterpart of the \<open>json.dump\<close> that \<open>write_json\<close> calls:
  its scanner for strings (\<open>scanstring\<close>), for numbers (\<open>match_number\<close>), and the loops of
  \<open>JSONArray\<close> and \<open>JSONObject\<close>, with white space skipped where the library skips it.  An
  object is returned as the dictionary of its pairs, in the order of the text.  A number
  with a fraction or an exponent, \<open>NaN\<close> and \<open>Infinity\<close> are floats, which are not modelled:
  the decoder answers \<open>NotModelled\<close> there.  \<open>Raised\<close> is an exception of the decoder: a
  \<open>JSONDecodeError\<close> with its message, or the \<open>ValueError\<close> of an integer of more than 4300
  digits.
\<close>

datatype 'a decoded =
    Decoded 'a
  | Raised exn
  | NotModelled
  | OutOfFuel

definition is_ws :: "nat \<Rightarrow> bool" where
  "is_ws c \<longleftrightarrow> c = 32 \<or> c = 9 \<or> c = 10 \<or> c = 13"

definition skip_ws :: "pystr \<Rightarrow> pystr" where
  "skip_ws s = dropWhile is_ws s"

text \<open>
  \<open>scanstring\<close> reads a string literal from after its opening quote: up to the closing
  quote, with the escapes undone, two escapes of four hexadecimal digits that are a surrogate pair giving one
  code point.  It returns the string and the text after the closing quote.
\<close>

definition hexval :: "nat \<Rightarrow> nat option" where
  "hexval c =
     (if 48 \<le> c \<and> c \<le> 57 then Some (c - 48)
      else if 97 \<le> c \<and> c \<le> 102 then Some (c - 87)
      else if 65 \<le> c \<and> c \<le> 70 then Some (c - 55)
      else None)"

definition decode_uXXXX :: "pystr \<Rightarrow> (nat \<times> pystr) option" where
  "decode_uXXXX s =
     (case s of
        a # b # c # d # rest \<Rightarrow>
          (case (hexval a, hexval b, hexval c, hexval d) of
             (Some x3, Some x2, Some x1, Some x0) \<Rightarrow>
               Some (4096 * x3 + 256 * x2 + 16 * x1 + x0, rest)
           | _ \<Rightarrow> None)
      | _ \<Rightarrow> None)"

definition BACKSLASH :: "nat \<Rightarrow> nat option" where
  "BACKSLASH esc =
     (if esc = 34 then Some 34 else if esc = 92 then Some 92 else if esc = 47 then Some 47
      else if esc = 98 then Some 8 else if esc = 102 then Some 12 else if esc = 110 then Some 10
      else if esc = 114 then Some 13 else if esc = 116 then Some 9 else None)"

definition append_char :: "nat \<Rightarrow> (pystr \<times> pystr) decoded \<Rightarrow> (pystr \<times> pystr) decoded" where
  "append_char c r = (case r of Decoded (s, rest) \<Rightarrow> Decoded (c # s, rest) | e \<Rightarrow> e)"

function scanstring :: "pystr \<Rightarrow> (pystr \<times> pystr) decoded" where
  "scanstring [] = Raised (JSONDecodeError (str ''Unterminated string starting at''))"
| "scanstring (c # cs) =
     (if c = 34 then Decoded ([], cs)
      else if c = 92 then
        (case cs of
           [] \<Rightarrow> Raised (JSONDecodeError (str ''Unterminated string starting at''))
         | esc # r \<Rightarrow>
             if esc \<noteq> 117 then
               (case BACKSLASH esc of
                  None \<Rightarrow> Raised (JSONDecodeError (str ''Invalid escape''))
                | Some char \<Rightarrow> append_char char (scanstring r))
             else
               (case decode_uXXXX r of
                  None \<Rightarrow> Raised (JSONDecodeError (str ''Invalid uXXXX escape''))
                | Some (uni, r1) \<Rightarrow>
                    if 55296 \<le> uni \<and> uni \<le> 56319 \<and> take 2 r1 = [92, 117] then
                      (case decode_uXXXX (drop 2 r1) of
                         None \<Rightarrow> Raised (JSONDecodeError (str ''Invalid uXXXX escape''))
                       | Some (uni2, r2) \<Rightarrow>
                           if 56320 \<le> uni2 \<and> uni2 \<le> 57343
                           then append_char (65536 + ((uni - 55296) * 1024 + (uni2 - 56320)))
                                  (scanstring r2)
                           else append_char uni (scanstring r1))
                    else append_char uni (scanstring r1)))
      else if c < 32 then Raised (JSONDecodeError (str ''Invalid control character at''))
      else append_char c (scanstring cs))"
  by pat_completeness auto
termination
proof -
  have len: "length rest < length s" if "decode_uXXXX s = Some (u, rest)" for s u rest
    using that by (auto simp: decode_uXXXX_def split: list.splits option.splits)
  show ?thesis
  proof (relation "measure length", goal_cases)
    case 1
    show ?case by simp
  next
    case (2 c cs esc r char)
    then show ?case by simp
  next
    case (3 c cs esc r x2 uni r1 x2a uni2 r2)
    then show ?case
      using len [of r uni r1] len [of "drop 2 r1" uni2 r2] by simp
  next
    case (4 c cs esc r x2 uni r1 x2a uni2 r2)
    then show ?case using len [of r uni r1] by simp
  next
    case (5 c cs esc r x2 uni r1)
    then show ?case using len [of r uni r1] by simp
  next
    case (6 c cs)
    then show ?case by simp
  qed
qed

text \<open>
  A number: an optional minus sign, then \<open>0\<close> or a digit other than \<open>0\<close> followed by digits.
  The conversion of the digits to an integer has the limit of 4300 digits too.
\<close>

definition is_digit :: "nat \<Rightarrow> bool" where
  "is_digit c \<longleftrightarrow> 48 \<le> c \<and> c \<le> 57"

definition int_of_digits :: "pystr \<Rightarrow> int" where
  "int_of_digits ds = foldl (\<lambda>a c. 10 * a + (int c - 48)) 0 ds"

definition float_tail :: "pystr \<Rightarrow> bool" where
  "float_tail r =
     (case r of
        [] \<Rightarrow> False
      | c # r1 \<Rightarrow>
          if c = 46 then (case r1 of [] \<Rightarrow> False | d # r2 \<Rightarrow> is_digit d)
          else if c = 101 \<or> c = 69 then
            (case r1 of
               [] \<Rightarrow> False
             | d # r2 \<Rightarrow>
                 if d = 43 \<or> d = 45 then (case r2 of [] \<Rightarrow> False | d2 # r3 \<Rightarrow> is_digit d2)
                 else is_digit d)
          else False)"

definition match_number :: "pystr \<Rightarrow> (pyval \<times> pystr) decoded option" where
  "match_number s =
     (let negative = (s \<noteq> [] \<and> hd s = 45);
          s1 = (if negative then tl s else s)
      in case s1 of
           [] \<Rightarrow> None
         | c # cs \<Rightarrow>
             if is_digit c then
               (let ds = (if c = 48 then [c] else c # takeWhile is_digit cs);
                    rest = (if c = 48 then cs else dropWhile is_digit cs);
                    n = int_of_digits ds
                in Some (if float_tail rest then NotModelled
                         else if length ds > INT_MAX_STR_DIGITS
                         then Raised (ValueError
                           (str ''Exceeds the limit (4300 digits) for integer string conversion: value has '' @
                            digits (length ds) @
                            str '' digits; use sys.set_int_max_str_digits() to increase the limit''))
                         else Decoded (PInt (if negative then - n else n), rest)))
             else None)"

definition starts_with :: "pystr \<Rightarrow> pystr \<Rightarrow> bool" where
  "starts_with p s \<longleftrightarrow> take (length p) s = p"

text \<open>\<open>dict(pairs)\<close>: a key that comes again keeps its place and takes the new value.\<close>

fun dict_set :: "(pyval \<times> pyval) list \<Rightarrow> pyval \<Rightarrow> pyval \<Rightarrow> (pyval \<times> pyval) list" where
  "dict_set [] k v = [(k, v)]"
| "dict_set ((k', v') # d) k v = (if k' = k then (k, v) # d else (k', v') # dict_set d k v)"

definition dict_of_pairs :: "(pyval \<times> pyval) list \<Rightarrow> (pyval \<times> pyval) list" where
  "dict_of_pairs pairs = foldl (\<lambda>d kv. dict_set d (fst kv) (snd kv)) [] pairs"

text \<open>
  \<open>scan_once\<close> reads one value; \<open>array_loop\<close> and \<open>object_loop\<close> are the loops over the items
  of an array and the pairs of an object.  The first argument is fuel: every nested value
  and every turn of a loop takes one unit, and the answer is \<open>OutOfFuel\<close> when none is
  left.  \<open>json_loads\<close> gives as many units as the text has characters; that this is
  enough for every text that the encoder writes is part of what is proved below.
\<close>

definition bind :: "'a decoded \<Rightarrow> ('a \<Rightarrow> 'b decoded) \<Rightarrow> 'b decoded" where
  "bind r f =
     (case r of
        Decoded x \<Rightarrow> f x
      | Raised e \<Rightarrow> Raised e
      | NotModelled \<Rightarrow> NotModelled
      | OutOfFuel \<Rightarrow> OutOfFuel)"

definition scan_scalar :: "pystr \<Rightarrow> (pyval \<times> pystr) decoded" where
  "scan_scalar s =
     (if starts_with [34] s then bind (scanstring (tl s)) (\<lambda>(x, rest). Decoded (PStr x, rest))
      else if starts_with (str ''null'') s then Decoded (PNone, drop 4 s)
      else if starts_with (str ''true'') s then Decoded (PBool True, drop 4 s)
      else if starts_with (str ''false'') s then Decoded (PBool False, drop 5 s)
      else
        (case match_number s of
           Some r \<Rightarrow> r
         | None \<Rightarrow>
             if starts_with (str ''NaN'') s \<or> starts_with (str ''Infinity'') s \<or>
                starts_with (str ''-Infinity'') s
             then NotModelled
             else Raised (JSONDecodeError (str ''Expecting value''))))"

definition JSONObject ::
  "((pyval \<times> pyval) list \<Rightarrow> pystr \<Rightarrow> (pyval \<times> pystr) decoded) \<Rightarrow> pystr \<Rightarrow> (pyval \<times> pystr) decoded" where
  "JSONObject pairs_loop s =
     (case skip_ws s of
        [] \<Rightarrow> Raised (JSONDecodeError (str ''Expecting property name enclosed in double quotes''))
      | c # cs \<Rightarrow> if c = 125 then Decoded (PDict [], cs) else pairs_loop [] (c # cs))"

definition JSONArray ::
  "(pyval list \<Rightarrow> pystr \<Rightarrow> (pyval \<times> pystr) decoded) \<Rightarrow> pystr \<Rightarrow> (pyval \<times> pystr) decoded" where
  "JSONArray values_loop s =
     (case skip_ws s of
        [] \<Rightarrow> Raised (JSONDecodeError (str ''Expecting value''))
      | c # cs \<Rightarrow> if c = 93 then Decoded (PList [], cs) else values_loop [] (c # cs))"

definition after_value ::
  "pyval list \<Rightarrow> pystr \<Rightarrow> (pyval list \<Rightarrow> pystr \<Rightarrow> (pyval \<times> pystr) decoded) \<Rightarrow> (pyval \<times> pystr) decoded" where
  "after_value values s values_loop =
     (case skip_ws s of
        [] \<Rightarrow> Raised (JSONDecodeError (str ''Expecting , delimiter''))
      | c # cs \<Rightarrow>
          if c = 93 then Decoded (PList values, cs)
          else if c = 44 then values_loop values (skip_ws cs)
          else Raised (JSONDecodeError (str ''Expecting , delimiter'')))"

definition after_pair ::
  "(pyval \<times> pyval) list \<Rightarrow> pystr \<Rightarrow>
   ((pyval \<times> pyval) list \<Rightarrow> pystr \<Rightarrow> (pyval \<times> pystr) decoded) \<Rightarrow> (pyval \<times> pystr) decoded" where
  "after_pair pairs s pairs_loop =
     (case skip_ws s of
        [] \<Rightarrow> Raised (JSONDecodeError (str ''Expecting , delimiter''))
      | c # cs \<Rightarrow>
          if c = 125 then Decoded (PDict (dict_of_pairs pairs), cs)
          else if c = 44 then pairs_loop pairs (skip_ws cs)
          else Raised (JSONDecodeError (str ''Expecting , delimiter'')))"

definition scan_key :: "pystr \<Rightarrow> (pystr \<times> pystr) decoded" where
  "scan_key s =
     (if \<not> starts_with [34] s
      then Raised (JSONDecodeError (str ''Expecting property name enclosed in double quotes''))
      else bind (scanstring (tl s)) (\<lambda>(key, rest).
             if starts_with [58] (skip_ws rest) then Decoded (key, skip_ws (tl (skip_ws rest)))
             else Raised (JSONDecodeError (str ''Expecting : delimiter''))))"

fun scan_once :: "nat \<Rightarrow> pystr \<Rightarrow> (pyval \<times> pystr) decoded"
  and array_loop :: "nat \<Rightarrow> pyval list \<Rightarrow> pystr \<Rightarrow> (pyval \<times> pystr) decoded"
  and object_loop :: "nat \<Rightarrow> (pyval \<times> pyval) list \<Rightarrow> pystr \<Rightarrow> (pyval \<times> pystr) decoded"
where
  "scan_once 0 s = OutOfFuel"
| "scan_once (Suc n) s =
     (if starts_with [123] s then JSONObject (object_loop n) (tl s)
      else if starts_with [91] s then JSONArray (array_loop n) (tl s)
      else scan_scalar s)"
| "array_loop 0 values s = OutOfFuel"
| "array_loop (Suc n) values s =
     bind (scan_once n s) (\<lambda>(v, rest). after_value (values @ [v]) rest (array_loop n))"
| "object_loop 0 pairs s = OutOfFuel"
| "object_loop (Suc n) pairs s =
     bind (scan_key s) (\<lambda>(key, rest).
       bind (scan_once n rest) (\<lambda>(v, rest').
         after_pair (pairs @ [(PStr key, v)]) rest' (object_loop n)))"

definition json_loads :: "pystr \<Rightarrow> pyval decoded" where
  "json_loads s =
     (case scan_once (length s) (skip_ws s) of
        Decoded (v, rest) \<Rightarrow>
          if skip_ws rest = [] then Decoded v else Raised (JSONDecodeError (str ''Extra data''))
      | Raised e \<Rightarrow> Raised e
      | NotModelled \<Rightarrow> NotModelled
      | OutOfFuel \<Rightarrow> OutOfFuel)"



text \<open>
  What the decoder makes of a value that the encoder wrote.  In a string, a high surrogate
  followed by a low one has become one code point (\<open>combine\<close>); the keys of a dictionary have
  become strings; the rest is as it was.  \<open>distinct_keys\<close> holds when no dictionary of the
  value has two keys that the decoder reads as the same string.
\<close>

definition is_high :: "nat \<Rightarrow> bool" where
  "is_high c \<longleftrightarrow> 55296 \<le> c \<and> c \<le> 56319"

definition is_low :: "nat \<Rightarrow> bool" where
  "is_low c \<longleftrightarrow> 56320 \<le> c \<and> c \<le> 57343"

definition astral :: "nat \<Rightarrow> nat" where
  "astral c = (if c < 65536 then c else 65536 + (c - 65536) mod 1048576)"

fun combine :: "pystr \<Rightarrow> pystr" where
  "combine [] = []"
| "combine [c] = [astral c]"
| "combine (c1 # c2 # cs) =
     (if is_high c1 \<and> is_low c2
      then (65536 + ((c1 - 55296) * 1024 + (c2 - 56320))) # combine cs
      else astral c1 # combine (c2 # cs))"

definition key_string :: "pyval \<Rightarrow> pystr" where
  "key_string k = (case key_text k of Inr s \<Rightarrow> s | Inl e \<Rightarrow> [])"

fun norm :: "pyval \<Rightarrow> pyval" where
  "norm (PStr s) = PStr (combine s)"
| "norm (PList l) = PList (map norm l)"
| "norm (PDict d) = PDict (map (\<lambda>kv. (PStr (combine (key_string (fst kv))), norm (snd kv))) d)"
| "norm v = v"

fun distinct_keys :: "pyval \<Rightarrow> bool" where
  "distinct_keys (PList l) = (\<forall>v \<in> set l. distinct_keys v)"
| "distinct_keys (PDict d) =
     (distinct (map (\<lambda>kv. combine (key_string (fst kv))) d) \<and>
      (\<forall>kv \<in> set d. distinct_keys (snd kv)))"
| "distinct_keys v = True"


text \<open>What can follow a value in a compact text: nothing, a comma or a closing bracket.\<close>

definition delim :: "pystr \<Rightarrow> bool" where
  "delim rest \<longleftrightarrow> rest = [] \<or> hd rest = 44 \<or> hd rest = 93 \<or> hd rest = 125"

text \<open>The characters that a value can begin with.\<close>

definition value_start :: "nat \<Rightarrow> bool" where
  "value_start c \<longleftrightarrow> c = 34 \<or> c = 123 \<or> c = 91 \<or> c = 110 \<or> c = 116 \<or> c = 102 \<or> c = 45 \<or> is_digit c"


text \<open>
  The text of the licence that is generated when the clock gives \<open>2024-01-01 00:00:00\<close> and
  \<open>2034-01-01 00:00:00\<close>.
\<close>

definition example_license_text :: pystr where
  \<open>example_license_text = str (
     ''{"header":{"version":1},"payload":{"name":"0x0060","email":"ren@'' @
     ''0x0060.dev","licenses":[{"id":"48-2437-ACBD-29","license_type":"'' @
     ''named","product":"IDA","product_id":"IDAPRO","edition_id":"ida-p'' @
     ''ro","seats":1,"start_date":"2024-01-01 00:00:00","end_date":"203'' @
     ''4-01-01 00:00:00","issued_on":"2024-01-01 00:00:00","owner":"0x0'' @
     ''060","add_ons":[{"id":"48-1337-DEAD-0","code":"HEXX86","owner":"'' @
     ''48-2437-ACBD-29","start_date":"2024-01-01 00:00:00","end_date":"'' @
     ''2034-01-01 00:00:00"},{"id":"48-1337-DEAD-1","code":"HEXX64","ow'' @
     ''ner":"48-2437-ACBD-29","start_date":"2024-01-01 00:00:00","end_d'' @
     ''ate":"2034-01-01 00:00:00"},{"id":"48-1337-DEAD-2","code":"HEXAR'' @
     ''M","owner":"48-2437-ACBD-29","start_date":"2024-01-01 00:00:00",'' @
     ''"end_date":"2034-01-01 00:00:00"},{"id":"48-1337-DEAD-3","code":'' @
     ''"HEXARM64","owner":"48-2437-ACBD-29","start_date":"2024-01-01 00'' @
     '':00:00","end_date":"2034-01-01 00:00:00"},{"id":"48-1337-DEAD-4"'' @
     '',"code":"HEXMIPS","owner":"48-2437-ACBD-29","start_date":"2024-0'' @
     ''1-01 00:00:00","end_date":"2034-01-01 00:00:00"},{"id":"48-1337-'' @
     ''DEAD-5","code":"HEXMIPS64","owner":"48-2437-ACBD-29","start_date'' @
     ''":"2024-01-01 00:00:00","end_date":"2034-01-01 00:00:00"},{"id":'' @
     ''"48-1337-DEAD-6","code":"HEXPPC","owner":"48-2437-ACBD-29","star'' @
     ''t_date":"2024-01-01 00:00:00","end_date":"2034-01-01 00:00:00"},'' @
     ''{"id":"48-1337-DEAD-7","code":"HEXPPC64","owner":"48-2437-ACBD-2'' @
     ''9","start_date":"2024-01-01 00:00:00","end_date":"2034-01-01 00:'' @
     ''00:00"},{"id":"48-1337-DEAD-8","code":"HEXRV64","owner":"48-2437'' @
     ''-ACBD-29","start_date":"2024-01-01 00:00:00","end_date":"2034-01'' @
     ''-01 00:00:00"},{"id":"48-1337-DEAD-9","code":"HEXARC","owner":"4'' @
     ''8-2437-ACBD-29","start_date":"2024-01-01 00:00:00","end_date":"2'' @
     ''034-01-01 00:00:00"},{"id":"48-1337-DEAD-10","code":"HEXARC64","'' @
     ''owner":"48-2437-ACBD-29","start_date":"2024-01-01 00:00:00","end'' @
     ''_date":"2034-01-01 00:00:00"}],"features":[]}]},"signature":"323'' @
     ''8353E900849B6547801BBF8AF31E7822CB4B74A6F54DE03F5E9DFF96AC5DA981'' @
     ''B50A62EAAF021F2052CC44498107B36C2D3B34C86B7B48084313189274A1D5D1'' @
     ''F45C1F512820C508EA22ABA43EC584E6FEFF6BA9969DD428268F40859AFFE8A2'' @
     ''E5BB66CA9C71E78FCAC14E3168D26D11952A71C0F330251D9D74FFC67BD24"}'')\<close>

text \<open>A provider for tests: a fixed clock, with no state.\<close>

definition FixedTimeProvider :: "pystr \<Rightarrow> pystr \<Rightarrow> unit TimeProvider" where
  "FixedTimeProvider start end =
     \<lparr> current_time = (\<lambda>s. (Inr start, s)), future_time = (\<lambda>years s. (Inr end, s)) \<rparr>"


section \<open>Properties of the generator\<close>

lemma append_addons_fields:
  "LicenseId.id (append_addons i ps s e lid) = LicenseId.id lid"
  "license_type (append_addons i ps s e lid) = license_type lid"
  "product (append_addons i ps s e lid) = product lid"
  "product_id (append_addons i ps s e lid) = product_id lid"
  "edition_id (append_addons i ps s e lid) = edition_id lid"
  "seats (append_addons i ps s e lid) = seats lid"
  "LicenseId.start_date (append_addons i ps s e lid) = LicenseId.start_date lid"
  "LicenseId.end_date (append_addons i ps s e lid) = LicenseId.end_date lid"
  "issued_on (append_addons i ps s e lid) = issued_on lid"
  "LicenseId.owner (append_addons i ps s e lid) = LicenseId.owner lid"
  "features (append_addons i ps s e lid) = features lid"
  by (induction ps arbitrary: i lid; simp add: Let_def)+

lemma append_addons_codes:
  "map code (add_ons (append_addons i ps s e lid)) = map code (add_ons lid) @ ps"
  by (induction ps arbitrary: i lid) (simp_all add: Let_def)

lemma append_addons_inv:
  "a \<in> set (add_ons (append_addons i ps s e lid)) \<Longrightarrow>
     a \<in> set (add_ons lid) \<or>
     (AddonPlugin.owner a = LicenseId.id lid \<and> AddonPlugin.start_date a = s \<and> AddonPlugin.end_date a = e)"
proof (induction ps arbitrary: i lid)
  case Nil
  then show ?case by simp
next
  case (Cons p ps)
  from Cons.prems Cons.IH [of "i + 1" "lid \<lparr> add_ons := add_ons lid @ [\<lparr> AddonPlugin.id = str ''48-1337-DEAD-'' @ str_int i,
                     code = p, AddonPlugin.owner = LicenseId.id lid,
                     AddonPlugin.start_date = s, AddonPlugin.end_date = e \<rparr>] \<rparr>"]
  show ?case by (auto simp: Let_def)
qed


lemma build_license_licenses:
  "licenses (payload (build_license s e)) =
     [append_addons 0 addon_plugins s e (LicenseId_new s e s)]"
  by (simp add: build_license_def Let_def License_new_def LicensePayload_new_def)

lemma generate_license_returns:
  assumes "current_time tp s = (Inr start, s1)" and "future_time tp 10 s1 = (Inr end, s2)"
  shows "generate_license tp s = (Inr (build_license start end), s2)"
  using assms by (simp add: generate_license_def)

text \<open>
  Claim C1.  When \<open>current_time()\<close> returns \<open>start\<close> and \<open>future_time(10)\<close> then returns
  \<open>end\<close>, \<open>generate_license()\<close> returns a licence with one identification, whose
  \<open>start_date\<close> and \<open>issued_on\<close> are \<open>start\<close> and whose \<open>end_date\<close> is \<open>end\<close>, and every add-on
  has the same pair of dates.  The witness is a provider that returns
  \<open>2024-01-01 00:00:00\<close> and \<open>2034-01-01 00:00:00\<close>.
\<close>

theorem generate_license_dates:
  assumes "current_time tp s = (Inr start, s1)" and "future_time tp 10 s1 = (Inr end, s2)"
  shows "\<exists>lic lid. generate_license tp s = (Inr lic, s2) \<and> licenses (payload lic) = [lid] \<and>
           LicenseId.start_date lid = start \<and> issued_on lid = start \<and>
           LicenseId.end_date lid = end \<and>
           (\<forall>a \<in> set (add_ons lid).
              AddonPlugin.start_date a = start \<and> AddonPlugin.end_date a = end)"
proof -
  let ?lid = "append_addons 0 addon_plugins start end (LicenseId_new start end start)"
  have "\<forall>a \<in> set (add_ons ?lid). AddonPlugin.start_date a = start \<and> AddonPlugin.end_date a = end"
    using append_addons_inv [of _ 0 addon_plugins start "end" "LicenseId_new start end start"]
    by (auto simp: LicenseId_new_def)
  then show ?thesis
    using generate_license_returns [OF assms]
    by (simp add: build_license_licenses append_addons_fields LicenseId_new_def)
qed

theorem generate_license_dates_witness:
  "\<exists>lic lid. generate_license (FixedTimeProvider (str ''2024-01-01 00:00:00'') (str ''2034-01-01 00:00:00'')) () = (Inr lic, ()) \<and>
      licenses (payload lic) = [lid] \<and>
      LicenseId.start_date lid = str ''2024-01-01 00:00:00'' \<and>
      issued_on lid = str ''2024-01-01 00:00:00'' \<and>
      LicenseId.end_date lid = str ''2034-01-01 00:00:00'' \<and>
      (\<forall>a \<in> set (add_ons lid).
         AddonPlugin.start_date a = str ''2024-01-01 00:00:00'' \<and>
         AddonPlugin.end_date a = str ''2034-01-01 00:00:00'') \<and>
      add_ons lid \<noteq> []"
proof -
  let ?tp = "FixedTimeProvider (str ''2024-01-01 00:00:00'') (str ''2034-01-01 00:00:00'')"
  have c: "current_time ?tp () = (Inr (str ''2024-01-01 00:00:00''), ())"
    by (simp add: FixedTimeProvider_def)
  have f: "future_time ?tp 10 () = (Inr (str ''2034-01-01 00:00:00''), ())"
    by (simp add: FixedTimeProvider_def)
  have ne: "add_ons (append_addons 0 addon_plugins s e (LicenseId_new s e s)) \<noteq> []" for s e
    using append_addons_codes [of 0 addon_plugins s e "LicenseId_new s e s"]
    by (auto simp: addon_plugins_def)
  from generate_license_dates [OF c f] generate_license_returns [OF c f] ne
  show ?thesis by (auto simp: build_license_licenses)
qed


lemma generate_license_Inr:
  assumes "generate_license tp s = (Inr lic, s')"
  shows "\<exists>start end s1. current_time tp s = (Inr start, s1) \<and>
           future_time tp 10 s1 = (Inr end, s') \<and> lic = build_license start end"
  using assms by (auto simp: generate_license_def split: prod.splits sum.splits)

lemma addon_ids_computed:
  "map AddonPlugin.id (add_ons (append_addons 0 addon_plugins s e lid0)) =
     map AddonPlugin.id (add_ons lid0) @
     [ str ''48-1337-DEAD-0'', str ''48-1337-DEAD-1'', str ''48-1337-DEAD-2'',
       str ''48-1337-DEAD-3'', str ''48-1337-DEAD-4'', str ''48-1337-DEAD-5'',
       str ''48-1337-DEAD-6'', str ''48-1337-DEAD-7'', str ''48-1337-DEAD-8'',
       str ''48-1337-DEAD-9'', str ''48-1337-DEAD-10'' ]"
  by (simp add: addon_plugins_def Let_def str_int_def digits.simps str_def)

text \<open>
  Claim C2.  Whatever the provider, the identification of a generated licence has exactly
  11 add-ons; their codes are the catalogue, in its order, and their ids are
  \<open>48-1337-DEAD-0\<close> to \<open>48-1337-DEAD-10\<close>.
\<close>

theorem generate_license_add_ons:
  assumes "generate_license tp s = (Inr lic, s')"
  shows "\<exists>lid. licenses (payload lic) = [lid] \<and> length (add_ons lid) = 11 \<and>
           map code (add_ons lid) =
             [ str ''HEXX86'', str ''HEXX64'', str ''HEXARM'', str ''HEXARM64'',
               str ''HEXMIPS'', str ''HEXMIPS64'', str ''HEXPPC'', str ''HEXPPC64'',
               str ''HEXRV64'', str ''HEXARC'', str ''HEXARC64'' ] \<and>
           map AddonPlugin.id (add_ons lid) =
             [ str ''48-1337-DEAD-0'', str ''48-1337-DEAD-1'', str ''48-1337-DEAD-2'',
               str ''48-1337-DEAD-3'', str ''48-1337-DEAD-4'', str ''48-1337-DEAD-5'',
               str ''48-1337-DEAD-6'', str ''48-1337-DEAD-7'', str ''48-1337-DEAD-8'',
               str ''48-1337-DEAD-9'', str ''48-1337-DEAD-10'' ]"
proof -
  from generate_license_Inr [OF assms] obtain start "end" where
    lic: "lic = build_license start end" by blast
  let ?lid = "append_addons 0 addon_plugins start end (LicenseId_new start end start)"
  have codes: "map code (add_ons ?lid) = addon_plugins"
    by (simp add: append_addons_codes LicenseId_new_def)
  have len: "length (add_ons ?lid) = 11"
    using arg_cong [OF codes, of length] by (simp add: addon_plugins_def)
  have ids: "map AddonPlugin.id (add_ons ?lid) =
             [ str ''48-1337-DEAD-0'', str ''48-1337-DEAD-1'', str ''48-1337-DEAD-2'',
               str ''48-1337-DEAD-3'', str ''48-1337-DEAD-4'', str ''48-1337-DEAD-5'',
               str ''48-1337-DEAD-6'', str ''48-1337-DEAD-7'', str ''48-1337-DEAD-8'',
               str ''48-1337-DEAD-9'', str ''48-1337-DEAD-10'' ]"
    by (simp add: addon_ids_computed) (simp add: LicenseId_new_def)
  show ?thesis
    unfolding lic build_license_licenses using codes len ids
    by (simp add: addon_plugins_def)
qed

theorem generate_license_add_ons_witness:
  "\<exists>lic lid. generate_license (FixedTimeProvider (str ''2024-01-01 00:00:00'') (str ''2034-01-01 00:00:00'')) () = (Inr lic, ()) \<and>
      licenses (payload lic) = [lid] \<and> length (add_ons lid) = 11 \<and>
      map code (add_ons lid) =
             [ str ''HEXX86'', str ''HEXX64'', str ''HEXARM'', str ''HEXARM64'',
               str ''HEXMIPS'', str ''HEXMIPS64'', str ''HEXPPC'', str ''HEXPPC64'',
               str ''HEXRV64'', str ''HEXARC'', str ''HEXARC64'' ] \<and>
      map AddonPlugin.id (add_ons lid) =
             [ str ''48-1337-DEAD-0'', str ''48-1337-DEAD-1'', str ''48-1337-DEAD-2'',
               str ''48-1337-DEAD-3'', str ''48-1337-DEAD-4'', str ''48-1337-DEAD-5'',
               str ''48-1337-DEAD-6'', str ''48-1337-DEAD-7'', str ''48-1337-DEAD-8'',
               str ''48-1337-DEAD-9'', str ''48-1337-DEAD-10'' ]"
proof -
  let ?tp = "FixedTimeProvider (str ''2024-01-01 00:00:00'') (str ''2034-01-01 00:00:00'')"
  have g: "generate_license ?tp () =
             (Inr (build_license (str ''2024-01-01 00:00:00'') (str ''2034-01-01 00:00:00'')), ())"
    by (simp add: generate_license_def FixedTimeProvider_def)
  show ?thesis using generate_license_add_ons [OF g] unfolding g by simp
qed

text \<open>
  Claim C3.  Whatever the provider, at every index \<open>i\<close> of \<open>add_ons\<close> the add-on's \<open>owner\<close> is the
  identification's \<open>id\<close> and its \<open>start_date\<close> and \<open>end_date\<close> are the identification's; and
  the identification's \<open>issued_on\<close> is its \<open>start_date\<close>.
\<close>

theorem generate_license_add_on_invariant:
  assumes "generate_license tp s = (Inr lic, s')"
  shows "\<exists>lid. licenses (payload lic) = [lid] \<and> issued_on lid = LicenseId.start_date lid \<and>
           (\<forall>i < length (add_ons lid).
              AddonPlugin.owner (add_ons lid ! i) = LicenseId.id lid \<and>
              AddonPlugin.start_date (add_ons lid ! i) = LicenseId.start_date lid \<and>
              AddonPlugin.end_date (add_ons lid ! i) = LicenseId.end_date lid)"
proof -
  from generate_license_Inr [OF assms] obtain start "end" where
    lic: "lic = build_license start end" by blast
  let ?lid0 = "LicenseId_new start end start"
  let ?lid = "append_addons 0 addon_plugins start end ?lid0"
  have "AddonPlugin.owner a = LicenseId.id ?lid \<and>
        AddonPlugin.start_date a = LicenseId.start_date ?lid \<and>
        AddonPlugin.end_date a = LicenseId.end_date ?lid" if "a \<in> set (add_ons ?lid)" for a
    using append_addons_inv [OF that]
    by (simp add: append_addons_fields) (simp add: LicenseId_new_def)
  then show ?thesis
    unfolding lic build_license_licenses
    by (simp add: append_addons_fields) (simp add: LicenseId_new_def)
qed

theorem generate_license_add_on_invariant_witness:
  "\<exists>lic lid. generate_license (FixedTimeProvider (str ''2024-01-01 00:00:00'') (str ''2034-01-01 00:00:00'')) () = (Inr lic, ()) \<and>
      licenses (payload lic) = [lid] \<and> issued_on lid = LicenseId.start_date lid \<and>
      0 < length (add_ons lid) \<and>
      AddonPlugin.owner (add_ons lid ! 0) = LicenseId.id lid \<and>
      AddonPlugin.start_date (add_ons lid ! 0) = LicenseId.start_date lid \<and>
      AddonPlugin.end_date (add_ons lid ! 0) = LicenseId.end_date lid"
proof -
  let ?tp = "FixedTimeProvider (str ''2024-01-01 00:00:00'') (str ''2034-01-01 00:00:00'')"
  have g: "generate_license ?tp () =
             (Inr (build_license (str ''2024-01-01 00:00:00'') (str ''2034-01-01 00:00:00'')), ())"
    by (simp add: generate_license_def FixedTimeProvider_def)
  have ne: "0 < length (add_ons (append_addons 0 addon_plugins s e (LicenseId_new s e s)))" for s e
    using arg_cong [OF append_addons_codes [of 0 addon_plugins s e "LicenseId_new s e s"], of length]
    by (simp add: addon_plugins_def)
  from generate_license_add_on_invariant [OF g] g ne show ?thesis
    by (auto simp: build_license_licenses)
qed

text \<open>
  Claim C9.  Whatever the provider, a generated licence carries the constants of the
  source: the identity fields of the identification, seat count 1, no features, the name
  and e-mail of the payload with one licence entry, the header \<open>{"version": 1}\<close> and the
  fixed signature of 256 hexadecimal characters that begins \<open>3238353E9008\<close>.
\<close>

theorem generate_license_constants:
  assumes "generate_license tp s = (Inr lic, s')"
  shows "\<exists>lid. licenses (payload lic) = [lid] \<and>
           LicenseId.id lid = str ''48-2437-ACBD-29'' \<and>
           license_type lid = str ''named'' \<and>
           product lid = str ''IDA'' \<and>
           product_id lid = str ''IDAPRO'' \<and>
           edition_id lid = str ''ida-pro'' \<and>
           seats lid = 1 \<and>
           LicenseId.owner lid = str ''0x0060'' \<and>
           features lid = [] \<and>
           name (payload lic) = str ''0x0060'' \<and>
           email (payload lic) = str ''ren@0x0060.dev'' \<and>
           length (licenses (payload lic)) = 1 \<and>
           header lic = [(str ''version'', PInt 1)] \<and>
           length (signature lic) = 256 \<and>
           (\<forall>c \<in> set (signature lic). c \<in> set (str ''0123456789ABCDEF'')) \<and>
           take 12 (signature lic) = str ''3238353E9008'' \<and>
           signature lic = default_signature"
proof -
  from generate_license_Inr [OF assms] obtain start "end" where
    lic: "lic = build_license start end" by blast
  have sig: "length default_signature = 256"
      "take 12 default_signature = str ''3238353E9008''"
      "\<forall>c \<in> set default_signature. c \<in> set (str ''0123456789ABCDEF'')"
    by (simp_all add: default_signature_def str_def)
  have rest: "name (payload lic) = str ''0x0060''" "email (payload lic) = str ''ren@0x0060.dev''"
     "header lic = [(str ''version'', PInt 1)]" "signature lic = default_signature"
    by (simp_all add: lic build_license_def Let_def License_new_def LicensePayload_new_def)
  show ?thesis
    unfolding build_license_licenses lic
    using sig rest
    by (simp add: append_addons_fields lic) (simp add: LicenseId_new_def)
qed

theorem generate_license_constants_witness:
  "generate_license (FixedTimeProvider (str ''2024-01-01 00:00:00'') (str ''2034-01-01 00:00:00'')) () =
     (Inr (build_license (str ''2024-01-01 00:00:00'') (str ''2034-01-01 00:00:00'')), ()) \<and>
   (\<exists>lid. licenses (payload (build_license (str ''2024-01-01 00:00:00'') (str ''2034-01-01 00:00:00''))) = [lid] \<and>
           LicenseId.id lid = str ''48-2437-ACBD-29'' \<and>
           license_type lid = str ''named'' \<and>
           product lid = str ''IDA'' \<and>
           product_id lid = str ''IDAPRO'' \<and>
           edition_id lid = str ''ida-pro'' \<and>
           seats lid = 1 \<and>
           LicenseId.owner lid = str ''0x0060'' \<and>
           features lid = [] \<and>
           name (payload (build_license (str ''2024-01-01 00:00:00'') (str ''2034-01-01 00:00:00''))) = str ''0x0060'' \<and>
           email (payload (build_license (str ''2024-01-01 00:00:00'') (str ''2034-01-01 00:00:00''))) = str ''ren@0x0060.dev'' \<and>
           length (licenses (payload (build_license (str ''2024-01-01 00:00:00'') (str ''2034-01-01 00:00:00'')))) = 1 \<and>
           header (build_license (str ''2024-01-01 00:00:00'') (str ''2034-01-01 00:00:00'')) = [(str ''version'', PInt 1)] \<and>
           length (signature (build_license (str ''2024-01-01 00:00:00'') (str ''2034-01-01 00:00:00''))) = 256 \<and>
           (\<forall>c \<in> set (signature (build_license (str ''2024-01-01 00:00:00'') (str ''2034-01-01 00:00:00''))). c \<in> set (str ''0123456789ABCDEF'')) \<and>
           take 12 (signature (build_license (str ''2024-01-01 00:00:00'') (str ''2034-01-01 00:00:00''))) = str ''3238353E9008'' \<and>
           signature (build_license (str ''2024-01-01 00:00:00'') (str ''2034-01-01 00:00:00'')) = default_signature)"
proof -
  let ?tp = "FixedTimeProvider (str ''2024-01-01 00:00:00'') (str ''2034-01-01 00:00:00'')"
  let ?lic = "build_license (str ''2024-01-01 00:00:00'') (str ''2034-01-01 00:00:00'')"
  have g: "generate_license ?tp () = (Inr ?lic, ())"
    by (simp add: generate_license_def FixedTimeProvider_def)
  from g generate_license_constants [OF g] show ?thesis by (rule conjI)
qed

section \<open>The encoder on a licence\<close>

lemma seq_chunks_None [simp]: "seq_chunks (a, None) b = (a @ fst b, snd b)"
  by (simp add: seq_chunks_def)

lemma seq_chunks_Some [simp]: "seq_chunks (a, Some e) b = (a, Some e)"
  by (simp add: seq_chunks_def)

lemma comma_join_Cons: "comma_join (x # xs) = x @ (if xs = [] then [] else str '','' @ comma_join xs)"
  by (cases xs) simp_all

lemma iterencode_list_ok:
  assumes "\<And>v. v \<in> set vs \<Longrightarrow> iterencode v = (t v, None)"
  shows "iterencode_list first vs =
           ((if first \<or> vs = [] then [] else str '','') @ comma_join (map t vs), None)"
  using assms
proof (induction vs arbitrary: first)
  case Nil
  show ?case by simp
next
  case (Cons v vs)
  have "iterencode v = (t v, None)" using Cons.prems by simp
  moreover have "iterencode_list False vs =
           ((if vs = [] then [] else str '','') @ comma_join (map t vs), None)"
    using Cons.IH [of False] Cons.prems by simp
  ultimately show ?case by (simp add: comma_join_Cons)
qed

lemma iterencode_dict_ok:
  assumes "\<And>kv. kv \<in> set kvs \<Longrightarrow> iterencode (snd kv) = (t kv, None)"
  shows "iterencode_dict first (map (\<lambda>(k, v). (PStr k, v)) kvs) =
           ((if first \<or> kvs = [] then [] else str '','') @
            comma_join (map (\<lambda>kv. encode_basestring_ascii (fst kv) @ str '':'' @ t kv) kvs), None)"
  using assms
proof (induction kvs arbitrary: first)
  case Nil
  show ?case by simp
next
  case (Cons kv kvs)
  obtain k v where kv: "kv = (k, v)" by (cases kv)
  have "iterencode v = (t kv, None)" using Cons.prems [of kv] kv by simp
  moreover have "iterencode_dict False (map (\<lambda>(k, v). (PStr k, v)) kvs) =
           ((if kvs = [] then [] else str '','') @
            comma_join (map (\<lambda>kv. encode_basestring_ascii (fst kv) @ str '':'' @ t kv) kvs), None)"
    using Cons.IH [of False] Cons.prems by simp
  ultimately show ?case by (simp add: comma_join_Cons kv)
qed

lemma key_text_json_key: "json_key k \<Longrightarrow> \<exists>s. key_text k = Inr s"
  by (cases k) (simp_all add: int_repr_def)

lemma json_value_encodes:
  "json_value v \<longrightarrow> snd (iterencode v) = None"
  "(\<forall>v \<in> set vs. json_value v) \<longrightarrow> snd (iterencode_list first vs) = None"
  "(\<forall>kv \<in> set kvs. json_key (fst kv) \<and> json_value (snd kv)) \<longrightarrow>
     snd (iterencode_dict first' kvs) = None"
proof (induction v and first vs and first' kvs rule: iterencode_iterencode_list_iterencode_dict.induct)
  case (11 first key v rest)
  show ?case
  proof
    assume a: "\<forall>kv\<in>set ((key, v) # rest). json_key (fst kv) \<and> json_value (snd kv)"
    then obtain s where s: "key_text key = Inr s" using key_text_json_key [of key] by auto
    from a 11 [OF s] show "snd (iterencode_dict first ((key, v) # rest)) = None"
      by (simp add: s seq_chunks_def split: option.splits)
  qed
qed (auto simp: seq_chunks_def int_repr_def split: option.splits)

lemma encode_basestring_ascii_Nil: "encode_basestring_ascii [] = [34, 34]"
  by (simp add: encode_basestring_ascii_def)

lemma encode_basestring_ascii_Cons:
  "encode_basestring_ascii (c # cs) = 34 # escape c @ tl (encode_basestring_ascii cs)"
  by (simp add: encode_basestring_ascii_def)

lemmas encode_literal = encode_basestring_ascii_Nil encode_basestring_ascii_Cons escape_def str_def

lemma iterencode_addon:
  "iterencode (AddonPlugin_to_dict a) = (canonical_addon a, None)"
  by (simp add: AddonPlugin_to_dict_def canonical_addon_def encode_literal)

lemma iterencode_PDict_Cons:
  "iterencode (PDict (kv # rest)) =
     seq_chunks (str ''{'', None) (seq_chunks (iterencode_dict True (kv # rest)) (str ''}'', None))"
  by simp

lemma iterencode_license_id:
  assumes "\<forall>v \<in> set (features l). json_value v" and "int_fits (seats l)"
  shows "iterencode (LicenseId_to_dict l) = (canonical_license_id l, None)"
proof -
  have "iterencode_list True (map AddonPlugin_to_dict (add_ons l)) =
          ((if True \<or> map AddonPlugin_to_dict (add_ons l) = [] then [] else str '','') @
           comma_join (map (\<lambda>v. fst (iterencode v)) (map AddonPlugin_to_dict (add_ons l))), None)"
    by (rule iterencode_list_ok) (auto simp: iterencode_addon)
  then have a: "iterencode_list True (map AddonPlugin_to_dict (add_ons l)) =
             (comma_join (map canonical_addon (add_ons l)), None)"
    by (simp add: comp_def iterencode_addon)
  have f: "iterencode_list True (features l) =
             (comma_join (map (\<lambda>v. fst (iterencode v)) (features l)), None)"
    using iterencode_list_ok [of "features l" "\<lambda>v. fst (iterencode v)" True]
      assms json_value_encodes(1)
    by (simp add: prod_eq_iff)
  show ?thesis
    using assms(2)
    by (simp add: LicenseId_to_dict_def canonical_license_id_def encode_literal a f int_repr_def)
qed

lemma iterencode_payload:
  assumes "\<forall>lid \<in> set (licenses p).
             int_fits (seats lid) \<and> (\<forall>v \<in> set (features lid). json_value v)"
  shows "iterencode (LicensePayload_to_dict p) = (canonical_payload p, None)"
proof -
  have "iterencode_list True (map LicenseId_to_dict (licenses p)) =
          ((if True \<or> map LicenseId_to_dict (licenses p) = [] then [] else str '','') @
           comma_join (map (\<lambda>v. fst (iterencode v)) (map LicenseId_to_dict (licenses p))), None)"
    by (rule iterencode_list_ok) (use assms in \<open>auto simp: iterencode_license_id\<close>)
  moreover have "map (\<lambda>x. fst (iterencode (LicenseId_to_dict x))) (licenses p) =
                 map canonical_license_id (licenses p)"
    using assms by (simp add: iterencode_license_id)
  ultimately have a: "iterencode_list True (map LicenseId_to_dict (licenses p)) =
             (comma_join (map canonical_license_id (licenses p)), None)"
    by (simp add: comp_def)
  show ?thesis
    by (simp add: LicensePayload_to_dict_def canonical_payload_def encode_literal a)
qed

lemma iterencode_header:
  assumes "\<forall>kv \<in> set h. json_value (snd kv)"
  shows "iterencode (PDict (map (\<lambda>(k, v). (PStr k, v)) h)) = (canonical_header h, None)"
proof -
  have "iterencode_dict True (map (\<lambda>(k, v). (PStr k, v)) h) =
          (comma_join (map (\<lambda>kv. encode_basestring_ascii (fst kv) @ str '':'' @ fst (iterencode (snd kv))) h), None)"
    using iterencode_dict_ok [of h "\<lambda>kv. fst (iterencode (snd kv))" True]
      assms json_value_encodes(1)
    by (simp add: prod_eq_iff)
  then show ?thesis
    by (simp add: canonical_header_def str_def case_prod_unfold)
qed

lemma iterencode_license:
  assumes "well_formed l"
  shows "iterencode (License_to_dict l) = (canonical_license l, None)"
proof -
  have h: "iterencode (PDict (map (\<lambda>(k, v). (PStr k, v)) (header l))) =
             (canonical_header (header l), None)"
    using assms unfolding well_formed_def by (intro iterencode_header) blast
  have p: "iterencode (LicensePayload_to_dict (payload l)) = (canonical_payload (payload l), None)"
    using assms by (simp add: iterencode_payload well_formed_def)
  show ?thesis
    by (simp add: License_to_dict_def canonical_license_def iterencode_PDict_Cons h p
        encode_literal del: iterencode.simps(6))
qed

section \<open>The default time provider\<close>

lemmas clock_defs =
  DefaultTimeProvider_current_time_def DefaultTimeProvider_future_time_def
  datetime_now_def timedelta_days_def datetime_add_def MAXORDINAL_def

lemmas strftime_eval =
  strftime_def ord2ymd_def Let_def DAYS_BEFORE_MONTH_def DAYS_IN_MONTH_def zfill_def
  str_int_def digits.simps str_def

text \<open>
  With the default of its parameter, \<open>future_time()\<close> raises at every reading of the clock:
  365 * 999999 days is more than the whole range of \<open>datetime\<close>.
\<close>

lemma future_time_default_raises:
  assumes "1 \<le> ordinal (clock w (reads w))"
  shows "fst (DefaultTimeProvider_future_time future_time_default_years w) =
           Inl (OverflowError (str ''date value out of range''))"
  using assms by (simp add: clock_defs future_time_default_years_def Let_def)

text \<open>
  The first day on which every C library writes the year with four digits, and the model of
  \<open>strftime\<close> on the day before it and on a day of the year 1.
\<close>

lemma ord2ymd_1000: "ord2ymd ORDINAL_1000 = (1000, 1, 1)" "ord2ymd (ORDINAL_1000 - 1) = (999, 12, 31)"
  by (simp_all add: ORDINAL_1000_def ord2ymd_def Let_def DAYS_BEFORE_MONTH_def DAYS_IN_MONTH_def)

lemma future_time_before_1000:
  "fst (DefaultTimeProvider_future_time (- 2024) example_world) = Inr (str ''1-05-06 00:00:00'')"
  by (simp add: clock_defs example_world_def example_now_def strftime_eval)

text \<open>
  Claim C7, as amended.  Let \<open>now\<close> be what the clock reads, a date of the years 1000 to 9999.
  \<open>current_time()\<close> returns \<open>now\<close>, formatted.  When the day \<open>365 * years\<close> days after \<open>now\<close>
  is a date of the years 1000 to 9999, \<open>future_time(years)\<close> returns that day with the time
  of day of \<open>now\<close>, formatted the same way; when that day is before the year 1 or after the
  year 9999, \<open>future_time(years)\<close> raises \<open>OverflowError\<close>.  (For a day of the years 1 to 999
  the call returns and the text of the year depends on the C library.)
  The witness: ten times 365 days after 2024-01-01 is 2033-12-29.
\<close>

theorem future_time_days:
  assumes "clock w (reads w) = now"
    and "ORDINAL_1000 \<le> ordinal now" and "ordinal now \<le> MAXORDINAL"
  shows "fst (DefaultTimeProvider_current_time w) = Inr (strftime now) \<and>
         (ORDINAL_1000 \<le> ordinal now + 365 * years \<and> ordinal now + 365 * years \<le> MAXORDINAL \<longrightarrow>
            fst (DefaultTimeProvider_future_time years w) =
              Inr (strftime (now \<lparr> ordinal := ordinal now + 365 * years \<rparr>))) \<and>
         (\<not> (1 \<le> ordinal now + 365 * years \<and> ordinal now + 365 * years \<le> MAXORDINAL) \<longrightarrow>
            (\<exists>msg. fst (DefaultTimeProvider_future_time years w) = Inl (OverflowError msg)))"
  using assms by (auto simp: clock_defs Let_def ORDINAL_1000_def)

theorem future_time_days_witness:
  "clock example_world (reads example_world) = example_now \<and>
   ORDINAL_1000 \<le> ordinal example_now \<and> ordinal example_now \<le> MAXORDINAL \<and>
   ORDINAL_1000 \<le> ordinal example_now + 365 * 10 \<and>
   ordinal example_now + 365 * 10 \<le> MAXORDINAL \<and>
   fst (DefaultTimeProvider_current_time example_world) = Inr (str ''2024-01-01 00:00:00'') \<and>
   fst (DefaultTimeProvider_future_time 10 example_world) = Inr (str ''2033-12-29 00:00:00'')"
proof -
  have c: "clock example_world (reads example_world) = example_now"
    by (simp add: example_world_def)
  have lo: "ORDINAL_1000 \<le> ordinal example_now" and hi: "ordinal example_now \<le> MAXORDINAL"
    by (simp_all add: example_now_def MAXORDINAL_def ORDINAL_1000_def)
  have s0: "strftime example_now = str ''2024-01-01 00:00:00''"
    by (simp add: example_now_def strftime_eval)
  have s1: "strftime (example_now \<lparr> ordinal := ordinal example_now + 365 * 10 \<rparr>) =
            str ''2033-12-29 00:00:00''"
    by (simp add: example_now_def strftime_eval)
  have r: "ORDINAL_1000 \<le> ordinal example_now + 365 * 10 \<and>
           ordinal example_now + 365 * 10 \<le> MAXORDINAL"
    by (simp add: example_now_def MAXORDINAL_def ORDINAL_1000_def)
  from future_time_days [OF c lo hi, of 10] r c lo hi show ?thesis
    by (simp only: s0 s1 simp_thms)
qed

text \<open>
  Claim C7 as the specification states it, refuted: called with the default of its
  parameter, \<open>future_time()\<close> raises instead of returning a time.
\<close>

theorem future_time_counterexample:
  "fst (DefaultTimeProvider_future_time 999999 example_world) =
     Inl (OverflowError (str ''date value out of range''))"
  by (simp add: clock_defs example_world_def example_now_def)

section \<open>The writer and the exit code\<close>

lemma int_fits_1: "int_fits 1"
  by (simp add: int_fits_def INT_MAX_STR_DIGITS_def digits.simps)

lemma well_formed_build_license: "well_formed (build_license s e)"
  by (simp add: well_formed_def build_license_licenses append_addons_fields)
     (simp add: build_license_def Let_def License_new_def LicenseId_new_def int_fits_1)














section \<open>The canonical form\<close>

subsection \<open>The characters of the encoder's text\<close>

lemma digits_range: "c \<in> set (digits n) \<Longrightarrow> 48 \<le> c \<and> c \<le> 57"
proof (induction n arbitrary: c rule: digits.induct)
  case (1 n)
  show ?case
  proof (cases "n < 10")
    case True
    with "1.prems" show ?thesis by (simp add: digits.simps [of n])
  next
    case False
    have "n mod 10 < 10" by simp
    with False "1.prems" "1.IH" show ?thesis
      by (subst (asm) digits.simps) (auto simp del: mod_less_divisor)
  qed
qed

lemma str_int_range: "c \<in> set (str_int i) \<Longrightarrow> c = 45 \<or> (48 \<le> c \<and> c \<le> 57)"
  using digits_range by (auto simp: str_int_def split: if_splits)

lemma hex_digit_range: "d < 16 \<Longrightarrow> (48 \<le> hex_digit d \<and> hex_digit d \<le> 57) \<or> (97 \<le> hex_digit d \<and> hex_digit d \<le> 102)"
  by (auto simp: hex_digit_def)

lemma hex4_range:
  assumes "c \<in> set (hex4 n)"
  shows "(48 \<le> c \<and> c \<le> 57) \<or> (97 \<le> c \<and> c \<le> 102)"
proof -
  have "m mod 16 < (16::nat)" for m by simp
  then have "(48 \<le> hex_digit (m mod 16) \<and> hex_digit (m mod 16) \<le> 57) \<or>
             (97 \<le> hex_digit (m mod 16) \<and> hex_digit (m mod 16) \<le> 102)" for m
    by (rule hex_digit_range)
  with assms show ?thesis unfolding hex4_def by auto
qed

lemma escape_range: "c \<in> set (escape n) \<Longrightarrow> 32 \<le> c \<and> c \<le> 126"
  by (auto simp: escape_def Let_def split: if_splits dest!: hex4_range)

lemma encode_basestring_ascii_range:
  "c \<in> set (encode_basestring_ascii s) \<Longrightarrow> 32 \<le> c \<and> c \<le> 126"
  by (auto simp: encode_basestring_ascii_def dest: escape_range)


lemma str_range: "c \<in> set (str s) \<Longrightarrow> c < 256"
  by (auto simp: str_def)

lemma fst_seq_chunks:
  "fst (seq_chunks a b) = (if snd a = None then fst a @ fst b else fst a)"
  by (auto simp: seq_chunks_def split: option.splits)

lemma key_text_range:
  "key_text k = Inr s \<Longrightarrow> c \<in> set (encode_basestring_ascii s) \<Longrightarrow> 32 \<le> c \<and> c \<le> 126"
  by (rule encode_basestring_ascii_range)

lemma iterencode_range:
  "\<forall>c \<in> set (fst (iterencode v)). 32 \<le> c \<and> c \<le> 126"
  "\<forall>c \<in> set (fst (iterencode_list first vs)). 32 \<le> c \<and> c \<le> 126"
  "\<forall>c \<in> set (fst (iterencode_dict first' kvs)). 32 \<le> c \<and> c \<le> 126"
proof (induction v and first vs and first' kvs rule: iterencode_iterencode_list_iterencode_dict.induct)
  case (1 s)
  show ?case using encode_basestring_ascii_range by auto
next
  case (4 i)
  have "32 \<le> c \<and> c \<le> 126" if "c \<in> set (str_int i)" for c
    using str_int_range [OF that] by auto
  then show ?case by (simp add: int_repr_def)
next
  case (11 first key v rest)
  show ?case
  proof (cases "key_text key")
    case (Inl e)
    then show ?thesis by simp
  next
    case (Inr k)
    with 11 [OF Inr] encode_basestring_ascii_range [of _ k] show ?thesis
      by (auto simp: fst_seq_chunks str_def split: if_splits)
  qed
qed (auto simp: fst_seq_chunks str_def split: if_splits)

subsection \<open>No blank outside the string literals\<close>















subsection \<open>The text of a well-formed licence\<close>


lemma canonical_example:
  "canonical_license (build_license (str ''2024-01-01 00:00:00'') (str ''2034-01-01 00:00:00'')) =
     example_license_text"
  by (simp add: build_license_def addon_plugins_def Let_def LicenseId_new_def
      LicensePayload_new_def License_new_def default_signature_def str_int_def digits.simps
      canonical_license_def canonical_header_def canonical_payload_def canonical_license_id_def
      canonical_addon_def encode_literal example_license_text_def
      int_repr_def int_fits_def INT_MAX_STR_DIGITS_def)










section \<open>The decoder on the encoder's text\<close>

subsection \<open>Strings\<close>

lemma hexval_hex_digit: "d < 16 \<Longrightarrow> hexval (hex_digit d) = Some d"
  by (auto simp: hexval_def hex_digit_def)

lemma hex4_value:
  fixes n :: nat
  shows "4096 * (n div 4096) + 256 * (n div 256 mod 16) + 16 * (n div 16 mod 16) + n mod 16 = n"
proof -
  have a: "n = 16 * (n div 16) + n mod 16" by simp
  have "n div 16 div 16 = n div 256" and "n div 256 div 16 = n div 4096"
    by (simp_all add: div_mult2_eq [symmetric])
  then have b: "n div 16 = 16 * (n div 256) + n div 16 mod 16"
    and c: "n div 256 = 16 * (n div 4096) + n div 256 mod 16"
    by (metis mult_div_mod_eq)+
  show ?thesis using a b c by linarith
qed

lemma decode_uXXXX_hex4: "n < 65536 \<Longrightarrow> decode_uXXXX (hex4 n @ r) = Some (n, r)"
  by (simp add: decode_uXXXX_def hex4_def hexval_hex_digit hex4_value)

lemma hex4_length: "length (hex4 n) = 4"
  by (simp add: hex4_def)


declare scanstring.simps [simp del]

lemma append_char_Decoded [simp]: "append_char c (Decoded (s, rest)) = Decoded (c # s, rest)"
  by (simp add: append_char_def)

lemma scan_quote: "scanstring (34 # cs) = Decoded ([], cs)"
  by (simp add: scanstring.simps(2))

lemma scan_plain:
  "32 \<le> c \<Longrightarrow> c \<noteq> 34 \<Longrightarrow> c \<noteq> 92 \<Longrightarrow> scanstring (c # cs) = append_char c (scanstring cs)"
  by (simp add: scanstring.simps(2) [of c cs])

lemma scan_simple:
  "BACKSLASH esc = Some ch \<Longrightarrow> esc \<noteq> 117 \<Longrightarrow>
     scanstring (92 # esc # r) = append_char ch (scanstring r)"
  by (simp add: scanstring.simps(2) [of 92 "esc # r"])

lemma scan_u_single:
  assumes "n < 65536" and "\<not> (is_high n \<and> take 2 r = [92, 117])"
  shows "scanstring (92 # 117 # hex4 n @ r) = append_char n (scanstring r)"
  using assms
  by (auto simp: decode_uXXXX_hex4 is_high_def scanstring.simps(2) [of 92 "117 # hex4 n @ r"])

lemma scan_u_nonlow:
  assumes "is_high n" and "m < 65536" and "\<not> is_low m"
  shows "scanstring (92 # 117 # hex4 n @ 92 # 117 # hex4 m @ r) =
           append_char n (scanstring (92 # 117 # hex4 m @ r))"
proof -
  have n: "n < 65536" using assms(1) by (simp add: is_high_def)
  have "decode_uXXXX (hex4 n @ (92 # 117 # hex4 m @ r)) = Some (n, 92 # 117 # hex4 m @ r)"
    using n by (rule decode_uXXXX_hex4)
  moreover have "decode_uXXXX (hex4 m @ r) = Some (m, r)"
    using assms(2) by (rule decode_uXXXX_hex4)
  ultimately show ?thesis
    using assms by (auto simp: is_high_def is_low_def
        scanstring.simps(2) [of 92 "117 # hex4 n @ 92 # 117 # hex4 m @ r"])
qed

lemma scan_u_pair:
  assumes "is_high n" and "is_low m"
  shows "scanstring (92 # 117 # hex4 n @ 92 # 117 # hex4 m @ r) =
           append_char (65536 + ((n - 55296) * 1024 + (m - 56320))) (scanstring r)"
proof -
  have n: "n < 65536" using assms(1) by (simp add: is_high_def)
  have m: "m < 65536" using assms(2) by (simp add: is_low_def)
  have "decode_uXXXX (hex4 n @ (92 # 117 # hex4 m @ r)) = Some (n, 92 # 117 # hex4 m @ r)"
    using n by (rule decode_uXXXX_hex4)
  moreover have "decode_uXXXX (hex4 m @ r) = Some (m, r)"
    using m by (rule decode_uXXXX_hex4)
  ultimately show ?thesis
    using assms by (auto simp: is_high_def is_low_def
        scanstring.simps(2) [of 92 "117 # hex4 n @ 92 # 117 # hex4 m @ r"])
qed


subsection \<open>The escapes, one code point at a time\<close>

lemma escape_printable:
  "32 \<le> c \<Longrightarrow> c \<le> 126 \<Longrightarrow> c \<noteq> 34 \<Longrightarrow> c \<noteq> 92 \<Longrightarrow> escape c = [c]"
  by (simp add: escape_def)

lemma escape_u:
  "c < 65536 \<Longrightarrow> \<not> (32 \<le> c \<and> c \<le> 126) \<Longrightarrow> c \<notin> {8, 9, 10, 12, 13} \<Longrightarrow>
     escape c = 92 # 117 # hex4 c"
  by (auto simp: escape_def)

lemma escape_astral:
  "65536 \<le> c \<Longrightarrow>
     escape c = 92 # 117 # hex4 (55296 + (c - 65536) div 1024 mod 1024) @
                92 # 117 # hex4 (56320 + (c - 65536) mod 1024)"
  by (simp add: escape_def Let_def)

lemma escape_first:
  "\<exists>t. escape c = [c] \<and> 32 \<le> c \<and> c \<noteq> 34 \<and> c \<noteq> 92 \<or>
       escape c = 92 # t \<and> t \<noteq> [] \<and> (take 1 t = [117] \<longrightarrow>
          (\<exists>m r. t = 117 # hex4 m @ r \<and> m < 65536 \<and> (is_low m \<longrightarrow> c = m)))"
proof -
  consider (p) "32 \<le> c \<and> c \<le> 126 \<and> c \<noteq> 34 \<and> c \<noteq> 92"
    | (s) "c \<in> {34, 92, 8, 9, 10, 12, 13}"
    | (u) "c < 65536 \<and> \<not> (32 \<le> c \<and> c \<le> 126) \<and> c \<notin> {8, 9, 10, 12, 13}"
    | (a) "65536 \<le> c"
    by fastforce
  then show ?thesis
  proof cases
    case p
    then show ?thesis by (simp add: escape_def)
  next
    case s
    then show ?thesis by (auto simp: escape_def)
  next
    case u
    then have "escape c = 92 # 117 # hex4 c" by (simp add: escape_u)
    with u show ?thesis by (intro exI [of _ "117 # hex4 c"]) auto
  next
    case a
    have "55296 + (c - 65536) div 1024 mod 1024 < 65536" 
      using mod_less_divisor [of 1024 "(c - 65536) div 1024"] by linarith
    moreover have "\<not> is_low (55296 + (c - 65536) div 1024 mod 1024)"
      using mod_less_divisor [of 1024 "(c - 65536) div 1024"] by (simp add: is_low_def)
    ultimately show ?thesis using escape_astral [OF a] by auto
  qed
qed


lemma astral_value:
  fixes n :: nat
  shows "(n div 1024 mod 1024) * 1024 + n mod 1024 = n mod 1048576"
proof -
  have "n mod (1024 * 1024) = 1024 * (n div 1024 mod 1024) + n mod 1024"
    by (rule mod_mult2_eq)
  then show ?thesis by simp
qed

lemma encoded_tail_shape:
  assumes "t = concat (map escape s') @ 34 # rest" and "take 2 t = [92, 117]"
  shows "\<exists>m r. t = 92 # 117 # hex4 m @ r \<and> m < 65536 \<and> (is_low m \<longrightarrow> s' \<noteq> [] \<and> hd s' = m)"
proof (cases s')
  case Nil
  with assms show ?thesis by simp
next
  case (Cons c2 cs)
  from escape_first [of c2] obtain t2 where
    e: "escape c2 = [c2] \<and> 32 \<le> c2 \<and> c2 \<noteq> 34 \<and> c2 \<noteq> 92 \<or>
        escape c2 = 92 # t2 \<and> t2 \<noteq> [] \<and> (take 1 t2 = [117] \<longrightarrow>
          (\<exists>m r. t2 = 117 # hex4 m @ r \<and> m < 65536 \<and> (is_low m \<longrightarrow> c2 = m)))"
    by blast
  have t: "t = escape c2 @ concat (map escape cs) @ 34 # rest"
    using assms(1) Cons by simp
  from e show ?thesis
  proof
    assume "escape c2 = [c2] \<and> 32 \<le> c2 \<and> c2 \<noteq> 34 \<and> c2 \<noteq> 92"
    with t assms(2) show ?thesis by simp
  next
    assume a: "escape c2 = 92 # t2 \<and> t2 \<noteq> [] \<and> (take 1 t2 = [117] \<longrightarrow>
          (\<exists>m r. t2 = 117 # hex4 m @ r \<and> m < 65536 \<and> (is_low m \<longrightarrow> c2 = m)))"
    with t assms(2) have "take 1 t2 = [117]"
      by (cases t2) auto
    with a obtain m r where "t2 = 117 # hex4 m @ r" "m < 65536" "is_low m \<longrightarrow> c2 = m"
      by blast
    with a t Cons show ?thesis by auto
  qed
qed

lemma scan_escape_step:
  assumes "\<not> (is_high c \<and> s' \<noteq> [] \<and> is_low (hd s'))"
  shows "scanstring (escape c @ concat (map escape s') @ 34 # rest) =
           append_char (astral c) (scanstring (concat (map escape s') @ 34 # rest))"
proof -
  let ?t = "concat (map escape s') @ 34 # rest"
  consider (p) "32 \<le> c \<and> c \<le> 126 \<and> c \<noteq> 34 \<and> c \<noteq> 92"
    | (s) "c \<in> {34, 92, 8, 9, 10, 12, 13}"
    | (u) "c < 65536 \<and> \<not> (32 \<le> c \<and> c \<le> 126) \<and> c \<notin> {8, 9, 10, 12, 13}"
    | (a) "65536 \<le> c"
    by fastforce
  then show ?thesis
  proof cases
    case p
    then show ?thesis by (simp add: escape_printable scan_plain astral_def)
  next
    case s
    then show ?thesis
      by (auto simp: escape_def astral_def BACKSLASH_def scan_simple)
  next
    case u
    then have e: "escape c = 92 # 117 # hex4 c" by (simp add: escape_u)
    have ac: "astral c = c" using u by (simp add: astral_def)
    show ?thesis
    proof (cases "is_high c \<and> take 2 ?t = [92, 117]")
      case False
      with u show ?thesis by (simp add: e ac scan_u_single)
    next
      case True
      with encoded_tail_shape [OF refl, of s' rest] obtain m r where
        m: "?t = 92 # 117 # hex4 m @ r" "m < 65536" "is_low m \<longrightarrow> s' \<noteq> [] \<and> hd s' = m"
        by blast
      with assms True have "\<not> is_low m" by auto
      with True m(2) have "scanstring (92 # 117 # hex4 c @ 92 # 117 # hex4 m @ r) =
           append_char c (scanstring (92 # 117 # hex4 m @ r))"
        by (intro scan_u_nonlow) simp_all
      then show ?thesis by (simp add: e ac m(1))
    qed
  next
    case a
    let ?n = "c - 65536"
    have h: "is_high (55296 + ?n div 1024 mod 1024)"
      using mod_less_divisor [of 1024 "?n div 1024"] by (simp add: is_high_def)
    have l: "is_low (56320 + ?n mod 1024)"
      using mod_less_divisor [of 1024 "?n"] by (simp add: is_low_def)
    have "astral c = 65536 + (?n div 1024 mod 1024 * 1024 + ?n mod 1024)"
      using a by (simp add: astral_def astral_value)
    then show ?thesis
      using scan_u_pair [OF h l, of ?t] by (simp add: escape_astral [OF a])
  qed
qed

lemma scanstring_encoded:
  "scanstring (concat (map escape s) @ 34 # rest) = Decoded (combine s, rest)"
proof (induction s rule: combine.induct)
  case 1
  show ?case by (simp add: scan_quote)
next
  case (2 c)
  show ?case using scan_escape_step [of c "[]" rest] by (simp add: scan_quote)
next
  case (3 c1 c2 cs)
  show ?case
  proof (cases "is_high c1 \<and> is_low c2")
    case True
    then have "escape c1 = 92 # 117 # hex4 c1" "escape c2 = 92 # 117 # hex4 c2"
      by (auto simp: is_high_def is_low_def intro!: escape_u)
    with True 3 scan_u_pair [of c1 c2 "concat (map escape cs) @ 34 # rest"]
    show ?thesis by simp
  next
    case False
    then have cmb: "combine (c1 # c2 # cs) = astral c1 # combine (c2 # cs)" by auto
    have ih: "scanstring (concat (map escape (c2 # cs)) @ 34 # rest) =
                   Decoded (combine (c2 # cs), rest)"
      using 3(2) False by blast
    have "scanstring (concat (map escape (c1 # c2 # cs)) @ 34 # rest) =
          scanstring (escape c1 @ concat (map escape (c2 # cs)) @ 34 # rest)"
      by simp
    also have "\<dots> = append_char (astral c1) (scanstring (concat (map escape (c2 # cs)) @ 34 # rest))"
      using False by (intro scan_escape_step) simp
    also have "\<dots> = Decoded (combine (c1 # c2 # cs), rest)"
      by (simp only: ih cmb append_char_Decoded)
    finally show ?thesis .
  qed
qed

lemma escape_astral_same: "escape (astral c) = escape c"
proof (cases "c < 65536")
  case True
  then show ?thesis by (simp add: astral_def)
next
  case False
  let ?n = "c - 65536"
  have e: "?n mod 1048576 = 1024 * (?n div 1024 mod 1024) + ?n mod 1024"
    using mod_mult2_eq [of ?n 1024 1024] by simp
  have "(?n mod 1048576) div 1024 = ?n div 1024 mod 1024"
    unfolding e by simp
  then have "(?n mod 1048576) div 1024 mod 1024 = ?n div 1024 mod 1024"
    by simp
  moreover have "(?n mod 1048576) mod 1024 = ?n mod 1024"
    by (simp add: mod_mod_cancel)
  ultimately show ?thesis using False by (simp add: astral_def escape_def Let_def)
qed

lemma escape_combine: "concat (map escape (combine s)) = concat (map escape s)"
proof (induction s rule: combine.induct)
  case 1
  show ?case by simp
next
  case (2 c)
  show ?case by (simp add: escape_astral_same)
next
  case (3 c1 c2 cs)
  show ?case
  proof (cases "is_high c1 \<and> is_low c2")
    case True
    let ?n = "(c1 - 55296) * 1024 + (c2 - 56320)"
    have c2: "c2 - 56320 < 1024" using True unfolding is_low_def by arith
    have c1: "c1 - 55296 < 1024" using True unfolding is_high_def by arith
    have d: "?n div 1024 = c1 - 55296" using c2 by simp
    have m: "?n mod 1024 = c2 - 56320" using c2 by simp
    have e: "escape c1 = 92 # 117 # hex4 c1" "escape c2 = 92 # 117 # hex4 c2"
      using True by (auto simp: is_high_def is_low_def intro!: escape_u)
    have h1: "55296 + (c1 - 55296) mod 1024 = c1"
      using True c1 by (simp add: is_high_def)
    have h2: "56320 + (c2 - 56320) = c2"
      using True by (simp add: is_low_def)
    have "escape (65536 + ?n) =
            92 # 117 # hex4 (55296 + (65536 + ?n - 65536) div 1024 mod 1024) @
            92 # 117 # hex4 (56320 + (65536 + ?n - 65536) mod 1024)"
      by (rule escape_astral) simp
    then have "escape (65536 + ?n) = 92 # 117 # hex4 c1 @ 92 # 117 # hex4 c2"
      by (simp only: diff_add_inverse d m h1 h2)
    moreover have "combine (c1 # c2 # cs) = (65536 + ?n) # combine cs"
      using True by simp
    ultimately show ?thesis using 3(1) True e by simp
  next
    case False
    then have cmb: "combine (c1 # c2 # cs) = astral c1 # combine (c2 # cs)" by auto
    have ih: "concat (map escape (combine (c2 # cs))) = concat (map escape (c2 # cs))"
      using 3(2) False by blast
    show ?thesis unfolding cmb using ih by (simp add: escape_astral_same)
  qed
qed

lemma encode_combine: "encode_basestring_ascii (combine s) = encode_basestring_ascii s"
  by (simp add: encode_basestring_ascii_def escape_combine)

subsection \<open>Numbers\<close>

lemma digits_nonempty: "digits n \<noteq> []"
  by (subst digits.simps) simp

lemma digits_all_digit: "c \<in> set (digits n) \<Longrightarrow> is_digit c"
  using digits_range [of c n] by (simp add: is_digit_def)

lemma digits_hd: "0 < n \<Longrightarrow> hd (digits n) \<noteq> 48"
proof (induction n rule: digits.induct)
  case (1 n)
  show ?case
  proof (cases "n < 10")
    case True
    with "1.prems" show ?thesis by (simp add: digits.simps [of n])
  next
    case False
    then have "0 < n div 10" by simp
    with False "1.IH" have "hd (digits (n div 10)) \<noteq> 48" by simp
    with False show ?thesis
      by (subst digits.simps) (simp add: digits_nonempty)
  qed
qed

lemma int_of_digits_snoc: "int_of_digits (ds @ [c]) = 10 * int_of_digits ds + (int c - 48)"
  by (simp add: int_of_digits_def)

lemma int_of_digits_digits: "int_of_digits (digits n) = int n"
proof (induction n rule: digits.induct)
  case (1 n)
  show ?case
  proof (cases "n < 10")
    case True
    then show ?thesis by (simp add: digits.simps [of n] int_of_digits_def)
  next
    case False
    with "1.IH" have "int_of_digits (digits (n div 10)) = int (n div 10)" by simp
    with False show ?thesis
      by (subst digits.simps) (simp add: int_of_digits_snoc zdiv_int zmod_int)
  qed
qed

lemma delim_not_digit: "delim rest \<Longrightarrow> rest = [] \<or> \<not> is_digit (hd rest)"
  by (auto simp: delim_def is_digit_def)

lemma delim_not_float: "delim rest \<Longrightarrow> \<not> float_tail rest"
  by (auto simp: delim_def float_tail_def split: list.splits)

lemma takeWhile_digits:
  assumes "\<forall>c \<in> set ds. is_digit c" and "rest = [] \<or> \<not> is_digit (hd rest)"
  shows "takeWhile is_digit (ds @ rest) = ds" and "dropWhile is_digit (ds @ rest) = rest"
  using assms by (induction ds) (auto simp: takeWhile_eq_Nil_iff dropWhile_eq_self_iff)

lemma match_digits:
  assumes "delim rest" and "length (digits n) \<le> INT_MAX_STR_DIGITS"
  shows "match_number (digits n @ rest) = Some (Decoded (PInt (int n), rest))"
proof -
  obtain c cs where ds: "digits n = c # cs" using digits_nonempty [of n] by (cases "digits n") auto
  have dig: "is_digit c" "\<forall>x \<in> set cs. is_digit x"
    using digits_all_digit [of _ n] ds by auto
  have c45: "c \<noteq> 45" using dig(1) by (simp add: is_digit_def)
  have v: "int_of_digits (c # cs) = int n" using int_of_digits_digits [of n] ds by simp
  show ?thesis
  proof (cases "n = 0")
    case True
    then have "digits n = [48]" by (simp add: digits.simps [of 0])
    with ds have "c = 48" "cs = []" by auto
    from assms(1) show ?thesis unfolding True
      by (simp add: digits.simps [of 0] match_number_def Let_def is_digit_def int_of_digits_def
          delim_not_float INT_MAX_STR_DIGITS_def)
  next
    case False
    then have "c \<noteq> 48" using digits_hd [of n] ds by simp
    moreover have "\<not> INT_MAX_STR_DIGITS < Suc (length cs)" using assms(2) ds by simp
    ultimately show ?thesis
      using dig c45 v assms(1)
      by (simp add: ds match_number_def Let_def delim_not_float
          takeWhile_digits [OF dig(2) delim_not_digit [OF assms(1)]])
  qed
qed

lemma match_str_int:
  assumes "delim rest" and "int_fits i"
  shows "match_number (str_int i @ rest) = Some (Decoded (PInt i, rest))"
proof (cases "i < 0")
  case True
  let ?n = "nat (- i)"
  obtain c cs where ds: "digits ?n = c # cs"
    using digits_nonempty [of ?n] by (cases "digits ?n") auto
  have dig: "is_digit c" "\<forall>x \<in> set cs. is_digit x"
    using digits_all_digit [of _ ?n] ds by auto
  have "c \<noteq> 48" using digits_hd [of ?n] ds True by simp
  moreover have "int_of_digits (c # cs) = int ?n"
    using int_of_digits_digits [of ?n] ds by simp
  moreover have "nat \<bar>i\<bar> = ?n" using True by simp
  then have "\<not> INT_MAX_STR_DIGITS < Suc (length cs)"
    using assms(2) ds by (simp add: int_fits_def)
  ultimately show ?thesis
    using True dig assms(1)
    by (simp add: str_int_def ds match_number_def Let_def delim_not_float
        takeWhile_digits [OF dig(2) delim_not_digit [OF assms(1)]])
next
  case False
  obtain c cs where ds: "digits (nat i) = c # cs"
    using digits_nonempty [of "nat i"] by (cases "digits (nat i)") auto
  then have "c \<noteq> 45" using digits_all_digit [of c "nat i"] by (auto simp: is_digit_def)
  moreover have "nat \<bar>i\<bar> = nat i" using False by simp
  then have "length (digits (nat i)) \<le> INT_MAX_STR_DIGITS"
    using assms(2) by (simp add: int_fits_def)
  ultimately show ?thesis
    using match_digits [OF assms(1), of "nat i"] False ds by (simp add: str_int_def)
qed


subsection \<open>How a value begins\<close>

lemma str_int_start: "\<exists>c t. str_int i = c # t \<and> (c = 45 \<or> is_digit c)"
proof (cases "i < 0")
  case True
  then show ?thesis by (simp add: str_int_def)
next
  case False
  obtain c cs where "digits (nat i) = c # cs"
    using digits_nonempty [of "nat i"] by (cases "digits (nat i)") auto
  with False digits_all_digit [of c "nat i"] show ?thesis by (simp add: str_int_def)
qed

lemma iterencode_start:
  assumes "json_value v"
  shows "\<exists>c t. fst (iterencode v) = c # t \<and> value_start c"
proof (cases v)
  case (PInt i)
  with assms str_int_start [of i] show ?thesis by (auto simp: value_start_def int_repr_def)
next
  case (PList l)
  then show ?thesis by (auto simp: value_start_def str_def fst_seq_chunks)
next
  case (PDict d)
  then show ?thesis by (auto simp: value_start_def str_def fst_seq_chunks)
next
  case (PObject n)
  with assms show ?thesis by simp
qed (auto simp: value_start_def str_def encode_basestring_ascii_def)

lemma skip_ws_start: "value_start c \<Longrightarrow> skip_ws (c # t) = c # t"
  by (auto simp: value_start_def skip_ws_def is_ws_def is_digit_def)

lemma skip_ws_delims [simp]:
  "skip_ws (44 # t) = 44 # t" "skip_ws (93 # t) = 93 # t" "skip_ws (125 # t) = 125 # t"
  "skip_ws (58 # t) = 58 # t" "skip_ws (34 # t) = 34 # t" "skip_ws [] = []"
  by (simp_all add: skip_ws_def is_ws_def)

subsection \<open>Scalars\<close>

lemma scan_scalar_string:
  "scan_scalar (encode_basestring_ascii s @ rest) = Decoded (PStr (combine s), rest)"
  using scanstring_encoded [of s rest]
  by (simp add: scan_scalar_def starts_with_def encode_basestring_ascii_def bind_def)

lemma scan_scalar_int:
  assumes "delim rest" and "int_fits i"
  shows "scan_scalar (str_int i @ rest) = Decoded (PInt i, rest)"
proof -
  from str_int_start [of i] obtain c t where c: "str_int i = c # t" "c = 45 \<or> is_digit c"
    by blast
  then have "\<not> starts_with [34] (str_int i @ rest)" "\<not> starts_with (str ''null'') (str_int i @ rest)"
    "\<not> starts_with (str ''true'') (str_int i @ rest)" "\<not> starts_with (str ''false'') (str_int i @ rest)"
    by (auto simp: starts_with_def str_def is_digit_def)
  then show ?thesis by (simp add: scan_scalar_def match_str_int [OF assms])
qed

lemma scan_scalar_consts:
  "scan_scalar (str ''null'' @ rest) = Decoded (PNone, rest)"
  "scan_scalar (str ''true'' @ rest) = Decoded (PBool True, rest)"
  "scan_scalar (str ''false'' @ rest) = Decoded (PBool False, rest)"
  by (simp_all add: scan_scalar_def starts_with_def str_def)

subsection \<open>Dictionaries with distinct keys\<close>

lemma dict_set_fresh: "k \<notin> fst ` set d \<Longrightarrow> dict_set d k v = d @ [(k, v)]"
  by (induction d) auto

lemma foldl_dict_set:
  "distinct (map fst (acc @ ps)) \<Longrightarrow>
     foldl (\<lambda>d kv. dict_set d (fst kv) (snd kv)) acc ps = acc @ ps"
proof (induction ps arbitrary: acc)
  case Nil
  show ?case by simp
next
  case (Cons p ps)
  have "dict_set acc (fst p) (snd p) = acc @ [p]"
    using Cons.prems by (intro dict_set_fresh [THEN trans]) auto
  moreover have "distinct (map fst ((acc @ [p]) @ ps))" using Cons.prems by simp
  ultimately show ?case using Cons.IH [of "acc @ [p]"] by simp
qed

lemma dict_of_pairs_distinct: "distinct (map fst ps) \<Longrightarrow> dict_of_pairs ps = ps"
  using foldl_dict_set [of "[]" ps] by (simp add: dict_of_pairs_def)

subsection \<open>The text of a JSON value\<close>

lemma text_list:
  assumes "\<forall>v \<in> set l. json_value v" and "l \<noteq> []"
  shows "fst (iterencode (PList l)) = 91 # fst (iterencode_list True l) @ [93]"
  using assms json_value_encodes(2) [of l True] by (simp add: fst_seq_chunks str_def)

lemma text_dict:
  assumes "\<forall>kv \<in> set d. json_key (fst kv) \<and> json_value (snd kv)" and "d \<noteq> []"
  shows "fst (iterencode (PDict d)) = 123 # fst (iterencode_dict True d) @ [125]"
  using assms json_value_encodes(3) [of d True] by (simp add: fst_seq_chunks str_def)

lemma text_list_Cons:
  assumes "json_value v"
  shows "fst (iterencode_list first (v # vs)) =
           (if first then [] else [44]) @ fst (iterencode v) @ fst (iterencode_list False vs)"
  using assms json_value_encodes(1) [of v] by (simp add: fst_seq_chunks str_def)

lemma text_dict_Cons:
  assumes "json_key k" and "json_value v"
  shows "fst (iterencode_dict first ((k, v) # kvs)) =
           (if first then [] else [44]) @ encode_basestring_ascii (key_string k) @ [58] @
           fst (iterencode v) @ fst (iterencode_dict False kvs)"
proof -
  from assms(1) obtain s where s: "key_text k = Inr s" using key_text_json_key by blast
  then show ?thesis
    using assms(2) json_value_encodes(1) [of v]
    by (simp add: fst_seq_chunks str_def key_string_def)
qed

lemma list_tail_delim: "delim (fst (iterencode_list False vs) @ 93 # rest)"
proof (cases vs)
  case Nil
  then show ?thesis by (simp add: delim_def)
next
  case (Cons v vs')
  then show ?thesis by (simp add: delim_def fst_seq_chunks str_def)
qed

lemma dict_tail_delim: "delim (fst (iterencode_dict False kvs) @ 125 # rest)"
proof (cases kvs)
  case Nil
  then show ?thesis by (simp add: delim_def)
next
  case (Cons kv kvs')
  obtain k v where "kv = (k, v)" by (cases kv)
  with Cons show ?thesis
    by (cases "key_text k") (simp_all add: delim_def fst_seq_chunks str_def)
qed

subsection \<open>Steps of the decoder on an encoded text\<close>

lemma scan_once_scalar:
  assumes "0 < n" and "\<not> starts_with [123] s" and "\<not> starts_with [91] s"
  shows "scan_once n s = scan_scalar s"
  using assms by (cases n) simp_all

lemma scan_once_array:
  assumes "value_start c"
  shows "scan_once (Suc n) (91 # (c # t)) = array_loop n [] (c # t)"
proof -
  have "c \<noteq> 93" using assms by (auto simp: value_start_def is_digit_def)
  then show ?thesis
    by (simp add: starts_with_def JSONArray_def skip_ws_start [OF assms])
qed

lemma scan_once_object:
  "scan_once (Suc n) (123 # 34 # t) = object_loop n [] (34 # t)"
  by (simp add: starts_with_def JSONObject_def)

lemma scan_key_encoded:
  assumes "value_start c"
  shows "scan_key (encode_basestring_ascii ks @ 58 # c # t) = Decoded (combine ks, c # t)"
proof -
  have "scanstring (concat (map escape ks) @ 34 # 58 # c # t) = Decoded (combine ks, 58 # c # t)"
    by (rule scanstring_encoded)
  then show ?thesis
    by (simp add: scan_key_def encode_basestring_ascii_def starts_with_def bind_def
        skip_ws_start [OF assms])
qed

lemma array_loop_step:
  assumes v: "\<And>n rest. length tv \<le> n \<Longrightarrow> delim rest \<Longrightarrow> scan_once n (tv @ rest) = Decoded (nv, rest)"
    and tail: "\<And>n acc. length tl' \<le> n \<Longrightarrow>
                 after_value acc (tl' @ 93 # rest) (array_loop n) = Decoded (PList (acc @ ns), rest)"
    and d: "delim (tl' @ 93 # rest)"
    and len: "length tv + length tl' \<le> m"
  shows "array_loop (Suc m) acc (tv @ tl' @ 93 # rest) = Decoded (PList (acc @ nv # ns), rest)"
proof -
  have "scan_once m (tv @ (tl' @ 93 # rest)) = Decoded (nv, tl' @ 93 # rest)"
    using len d by (intro v) simp_all
  moreover have "after_value (acc @ [nv]) (tl' @ 93 # rest) (array_loop m) =
                 Decoded (PList ((acc @ [nv]) @ ns), rest)"
    using len by (intro tail) simp
  ultimately show ?thesis by (simp add: bind_def)
qed

lemma object_loop_step:
  assumes v: "\<And>n rest. length tv \<le> n \<Longrightarrow> delim rest \<Longrightarrow> scan_once n (tv @ rest) = Decoded (nv, rest)"
    and tail: "\<And>n acc. length tl' \<le> n \<Longrightarrow>
                 after_pair acc (tl' @ 125 # rest) (object_loop n) = Decoded (PDict (dict_of_pairs (acc @ ns)), rest)"
    and d: "delim (tl' @ 125 # rest)"
    and start: "tv = c # t" "value_start c"
    and len: "length tv + length tl' \<le> m"
  shows "object_loop (Suc m) acc (encode_basestring_ascii ks @ 58 # tv @ tl' @ 125 # rest) =
           Decoded (PDict (dict_of_pairs (acc @ (PStr (combine ks), nv) # ns)), rest)"
proof -
  have k: "scan_key (encode_basestring_ascii ks @ 58 # tv @ tl' @ 125 # rest) =
             Decoded (combine ks, tv @ tl' @ 125 # rest)"
    using scan_key_encoded [OF start(2), of ks "t @ tl' @ 125 # rest"] start(1) by simp
  have "scan_once m (tv @ (tl' @ 125 # rest)) = Decoded (nv, tl' @ 125 # rest)"
    using len d by (intro v) simp_all
  moreover have "after_pair (acc @ [(PStr (combine ks), nv)]) (tl' @ 125 # rest) (object_loop m) =
                 Decoded (PDict (dict_of_pairs ((acc @ [(PStr (combine ks), nv)]) @ ns)), rest)"
    using len by (intro tail) simp
  ultimately show ?thesis by (simp add: k bind_def)
qed

subsection \<open>Decoding what the encoder wrote\<close>

declare scan_once.simps [simp del] array_loop.simps [simp del] object_loop.simps [simp del]

lemma decode_encoded:
  "json_value v \<longrightarrow> distinct_keys v \<longrightarrow>
     (\<forall>n rest. length (fst (iterencode v)) \<le> n \<longrightarrow> delim rest \<longrightarrow>
        scan_once n (fst (iterencode v) @ rest) = Decoded (norm v, rest))"
  "(\<forall>x \<in> set vs. json_value x \<and> distinct_keys x) \<longrightarrow>
     (\<forall>n acc rest.
        (first \<longrightarrow> vs \<noteq> [] \<longrightarrow> length (fst (iterencode_list first vs)) < n \<longrightarrow>
           array_loop n acc (fst (iterencode_list first vs) @ 93 # rest) =
             Decoded (PList (acc @ map norm vs), rest)) \<and>
        (\<not> first \<longrightarrow> length (fst (iterencode_list first vs)) \<le> n \<longrightarrow>
           after_value acc (fst (iterencode_list first vs) @ 93 # rest) (array_loop n) =
             Decoded (PList (acc @ map norm vs), rest)))"
  "(\<forall>kv \<in> set kvs. json_key (fst kv) \<and> json_value (snd kv) \<and> distinct_keys (snd kv)) \<longrightarrow>
     (\<forall>n acc rest.
        (first' \<longrightarrow> kvs \<noteq> [] \<longrightarrow> length (fst (iterencode_dict first' kvs)) < n \<longrightarrow>
           object_loop n acc (fst (iterencode_dict first' kvs) @ 125 # rest) =
             Decoded (PDict (dict_of_pairs
               (acc @ map (\<lambda>kv. (PStr (combine (key_string (fst kv))), norm (snd kv))) kvs)), rest)) \<and>
        (\<not> first' \<longrightarrow> length (fst (iterencode_dict first' kvs)) \<le> n \<longrightarrow>
           after_pair acc (fst (iterencode_dict first' kvs) @ 125 # rest) (object_loop n) =
             Decoded (PDict (dict_of_pairs
               (acc @ map (\<lambda>kv. (PStr (combine (key_string (fst kv))), norm (snd kv))) kvs)), rest)))"
proof (induction v and first vs and first' kvs rule: iterencode_iterencode_list_iterencode_dict.induct)
  case (1 s)
  show ?case
  proof (intro impI allI)
    fix n rest
    assume n: "length (fst (iterencode (PStr s))) \<le> n"
    have "encode_basestring_ascii s = 34 # tl (encode_basestring_ascii s)"
      by (simp add: encode_basestring_ascii_def)
    then have "\<not> starts_with [123] (encode_basestring_ascii s @ rest)"
      "\<not> starts_with [91] (encode_basestring_ascii s @ rest)"
      by (auto simp: starts_with_def encode_basestring_ascii_def)
    moreover have "0 < n" using n by (simp add: encode_basestring_ascii_def)
    ultimately have "scan_once n (encode_basestring_ascii s @ rest) =
                 scan_scalar (encode_basestring_ascii s @ rest)"
      by (intro scan_once_scalar)
    then show "scan_once n (fst (iterencode (PStr s)) @ rest) = Decoded (norm (PStr s), rest)"
      by (simp add: scan_scalar_string)
  qed
next
  case 2
  show ?case
  proof (intro impI allI)
    fix n rest
    assume n: "length (fst (iterencode PNone)) \<le> n"
    then have "scan_once n (str ''null'' @ rest) = scan_scalar (str ''null'' @ rest)"
      by (intro scan_once_scalar) (simp_all add: starts_with_def str_def)
    then show "scan_once n (fst (iterencode PNone) @ rest) = Decoded (norm PNone, rest)"
      by (simp add: scan_scalar_consts)
  qed
next
  case (3 b)
  show ?case
  proof (intro impI allI)
    fix n rest
    assume n: "length (fst (iterencode (PBool b))) \<le> n"
    let ?t = "if b then str ''true'' else str ''false''"
    from n have "scan_once n (?t @ rest) = scan_scalar (?t @ rest)"
      by (intro scan_once_scalar) (cases b; simp add: starts_with_def str_def)+
    then show "scan_once n (fst (iterencode (PBool b)) @ rest) = Decoded (norm (PBool b), rest)"
      by (cases b) (simp_all add: scan_scalar_consts)
  qed
next
  case (4 i)
  show ?case
  proof (intro impI allI)
    fix n rest
    assume j: "json_value (PInt i)"
      and n: "length (fst (iterencode (PInt i))) \<le> n" and d: "delim rest"
    from j have f: "int_fits i" and e: "fst (iterencode (PInt i)) = str_int i"
      by (simp_all add: int_repr_def)
    from str_int_start [of i] obtain c t where c: "str_int i = c # t" "c = 45 \<or> is_digit c"
      by blast
    with n have "scan_once n (str_int i @ rest) = scan_scalar (str_int i @ rest)"
      unfolding e by (intro scan_once_scalar) (auto simp: starts_with_def is_digit_def)
    then show "scan_once n (fst (iterencode (PInt i)) @ rest) = Decoded (norm (PInt i), rest)"
      unfolding e by (simp add: scan_scalar_int [OF d f])
  qed
next
  case (5 lst)
  show ?case
  proof (intro impI allI)
    fix n rest
    assume jv: "json_value (PList lst)" and dk: "distinct_keys (PList lst)"
      and n: "length (fst (iterencode (PList lst))) \<le> n" and d: "delim rest"
    show "scan_once n (fst (iterencode (PList lst)) @ rest) = Decoded (norm (PList lst), rest)"
    proof (cases lst)
      case Nil
      with n obtain m where "n = Suc m" by (cases n) (simp_all add: str_def)
      with Nil show ?thesis
        by (simp add: str_def starts_with_def JSONArray_def scan_once.simps)
    next
      case (Cons v vs)
      have all: "\<forall>x \<in> set lst. json_value x \<and> distinct_keys x" using jv dk by simp
      have t: "fst (iterencode (PList lst)) = 91 # fst (iterencode_list True lst) @ [93]"
        using jv Cons by (intro text_list) simp_all
      with n obtain m where m: "n = Suc m" "length (fst (iterencode_list True lst)) < m"
        by (cases n) simp_all
      from iterencode_start [of v] all Cons obtain c t' where
        c: "fst (iterencode v) = c # t'" "value_start c" by auto
      have "fst (iterencode_list True (v # vs)) =
              (if True then [] else [44]) @ fst (iterencode v) @ fst (iterencode_list False vs)"
        by (rule text_list_Cons) (use all Cons in simp)
      then have "\<exists>t''. fst (iterencode_list True lst) = c # t''"
        unfolding Cons c(1) by (simp del: iterencode.simps)
      then obtain t'' where l: "fst (iterencode_list True lst) = c # t''" ..
      have "array_loop m [] (fst (iterencode_list True lst) @ 93 # rest) =
              Decoded (PList ([] @ map norm lst), rest)"
        using 5 all Cons m(2) by simp
      then have "scan_once (Suc m) (91 # c # t'' @ 93 # rest) = Decoded (PList (map norm lst), rest)"
        using scan_once_array [OF c(2), of m "t'' @ 93 # rest"] unfolding l by simp
      then show ?thesis
        unfolding t m(1) l by (simp del: iterencode.simps)
    qed
  qed
next
  case (6 dct)
  show ?case
  proof (intro impI allI)
    fix n rest
    assume jv: "json_value (PDict dct)" and dk: "distinct_keys (PDict dct)"
      and n: "length (fst (iterencode (PDict dct))) \<le> n" and d: "delim rest"
    let ?nk = "\<lambda>kv. (PStr (combine (key_string (fst kv))), norm (snd kv))"
    show "scan_once n (fst (iterencode (PDict dct)) @ rest) = Decoded (norm (PDict dct), rest)"
    proof (cases dct)
      case Nil
      with n obtain m where "n = Suc m" by (cases n) (simp_all add: str_def)
      with Nil show ?thesis
        by (simp add: str_def starts_with_def JSONObject_def scan_once.simps)
    next
      case (Cons kv kvs)
      have all: "\<forall>kv \<in> set dct. json_key (fst kv) \<and> json_value (snd kv) \<and> distinct_keys (snd kv)"
        using jv dk by simp
      have t: "fst (iterencode (PDict dct)) = 123 # fst (iterencode_dict True dct) @ [125]"
        using jv Cons by (intro text_dict) simp_all
      with n obtain m where m: "n = Suc m" "length (fst (iterencode_dict True dct)) < m"
        by (cases n) simp_all
      obtain k v where kv: "kv = (k, v)" by (cases kv)
      have "fst (iterencode_dict True ((k, v) # kvs)) =
              (if True then [] else [44]) @ encode_basestring_ascii (key_string k) @ [58] @
              fst (iterencode v) @ fst (iterencode_dict False kvs)"
        by (rule text_dict_Cons) (use all Cons kv in simp_all)
      then have "\<exists>t''. fst (iterencode_dict True dct) = 34 # t''"
        unfolding Cons kv by (simp add: encode_basestring_ascii_def del: iterencode.simps)
      then obtain t'' where l: "fst (iterencode_dict True dct) = 34 # t''" ..
      have "distinct (map fst (map ?nk dct))"
        using dk by (simp add: comp_def distinct_map inj_on_def)
      then have dp: "dict_of_pairs (map ?nk dct) = map ?nk dct"
        by (rule dict_of_pairs_distinct)
      have "object_loop m [] (fst (iterencode_dict True dct) @ 125 # rest) =
              Decoded (PDict (dict_of_pairs ([] @ map ?nk dct)), rest)"
        using 6 all Cons m(2) by simp
      then have "scan_once (Suc m) (123 # 34 # t'' @ 125 # rest) = Decoded (PDict (map ?nk dct), rest)"
        using scan_once_object [of m "t'' @ 125 # rest"] unfolding l by (simp add: dp)
      then show ?thesis
        unfolding t m(1) l by (simp del: iterencode.simps)
    qed
  qed
next
  case (7 n)
  show ?case by simp
next
  case (8 first)
  show ?case by (simp add: after_value_def)
next
  case (9 first v vs)
  show ?case
  proof (intro impI allI)
    fix n acc rest
    assume all: "\<forall>x \<in> set (v # vs). json_value x \<and> distinct_keys x"
    let ?tv = "fst (iterencode v)" and ?tl = "fst (iterencode_list False vs)"
    have v: "\<And>n rest. length ?tv \<le> n \<Longrightarrow> delim rest \<Longrightarrow>
               scan_once n (?tv @ rest) = Decoded (norm v, rest)"
      using 9(1) all by simp
    have tail: "\<And>n acc. length ?tl \<le> n \<Longrightarrow>
                 after_value acc (?tl @ 93 # rest) (array_loop n) =
                   Decoded (PList (acc @ map norm vs), rest)"
      using 9(2) all by simp
    have t: "fst (iterencode_list first (v # vs)) = (if first then [] else [44]) @ ?tv @ ?tl"
      using all by (intro text_list_Cons) simp
    from iterencode_start [of v] all obtain c t' where
      c: "?tv = c # t'" "value_start c" by auto
    have step: "array_loop (Suc m) acc (?tv @ ?tl @ 93 # rest) =
                  Decoded (PList (acc @ norm v # map norm vs), rest)"
      if "length ?tv + length ?tl \<le> m" for m
      using v tail list_tail_delim that by (rule array_loop_step)
    show "(first \<longrightarrow> v # vs \<noteq> [] \<longrightarrow> length (fst (iterencode_list first (v # vs))) < n \<longrightarrow>
            array_loop n acc (fst (iterencode_list first (v # vs)) @ 93 # rest) =
              Decoded (PList (acc @ map norm (v # vs)), rest)) \<and>
          (\<not> first \<longrightarrow> length (fst (iterencode_list first (v # vs))) \<le> n \<longrightarrow>
            after_value acc (fst (iterencode_list first (v # vs)) @ 93 # rest) (array_loop n) =
              Decoded (PList (acc @ map norm (v # vs)), rest))"
    proof (intro conjI impI)
      assume "first" and "length (fst (iterencode_list first (v # vs))) < n"
      then obtain m where "n = Suc m" "length ?tv + length ?tl \<le> m"
        unfolding t by (cases n) simp_all
      with step [of m] \<open>first\<close> show "array_loop n acc (fst (iterencode_list first (v # vs)) @ 93 # rest) =
              Decoded (PList (acc @ map norm (v # vs)), rest)"
        unfolding t by simp
    next
      assume "\<not> first" and "length (fst (iterencode_list first (v # vs))) \<le> n"
      then obtain m where m: "n = Suc m" "length ?tv + length ?tl \<le> m"
        unfolding t by (cases n) simp_all
      have "after_value acc (44 # ?tv @ ?tl @ 93 # rest) (array_loop n) =
            array_loop n acc (?tv @ ?tl @ 93 # rest)"
        using skip_ws_start [OF c(2), of "t' @ ?tl @ 93 # rest"]
        by (simp add: after_value_def c(1))
      with step [OF m(2)] \<open>\<not> first\<close> show "after_value acc (fst (iterencode_list first (v # vs)) @ 93 # rest) (array_loop n) =
              Decoded (PList (acc @ map norm (v # vs)), rest)"
        unfolding t m(1) by simp
    qed
  qed
next
  case (10 first)
  show ?case by (simp add: after_pair_def)
next
  case (11 first key v kvs)
  show ?case
  proof (intro impI allI)
    fix n acc rest
    let ?nk = "\<lambda>kv. (PStr (combine (key_string (fst kv))), norm (snd kv))"
    assume all: "\<forall>kv \<in> set ((key, v) # kvs). json_key (fst kv) \<and> json_value (snd kv) \<and> distinct_keys (snd kv)"
    then obtain ks where ks: "key_text key = Inr ks" using key_text_json_key [of key] by auto
    then have ks': "key_string key = ks" by (simp add: key_string_def)
    let ?tv = "fst (iterencode v)" and ?tl = "fst (iterencode_dict False kvs)"
    have v: "\<And>n rest. length ?tv \<le> n \<Longrightarrow> delim rest \<Longrightarrow>
               scan_once n (?tv @ rest) = Decoded (norm v, rest)"
      using 11(1) [OF ks] all by simp
    have tail: "\<And>n acc. length ?tl \<le> n \<Longrightarrow>
                 after_pair acc (?tl @ 125 # rest) (object_loop n) =
                   Decoded (PDict (dict_of_pairs (acc @ map ?nk kvs)), rest)"
      using 11(2) [OF ks] all by simp
    have t: "fst (iterencode_dict first ((key, v) # kvs)) =
               (if first then [] else [44]) @ encode_basestring_ascii ks @ [58] @ ?tv @ ?tl"
      using all text_dict_Cons [of key v first kvs] by (simp add: ks')
    from iterencode_start [of v] all obtain c t' where
      c: "?tv = c # t'" "value_start c" by auto
    have step: "object_loop (Suc m) acc (encode_basestring_ascii ks @ 58 # ?tv @ ?tl @ 125 # rest) =
                  Decoded (PDict (dict_of_pairs (acc @ (PStr (combine ks), norm v) # map ?nk kvs)), rest)"
      if "length ?tv + length ?tl \<le> m" for m
      using v tail dict_tail_delim c that by (rule object_loop_step)
    have len: "length ?tv + length ?tl < length (encode_basestring_ascii ks @ [58] @ ?tv @ ?tl)"
      by simp
    show "(first \<longrightarrow> (key, v) # kvs \<noteq> [] \<longrightarrow> length (fst (iterencode_dict first ((key, v) # kvs))) < n \<longrightarrow>
            object_loop n acc (fst (iterencode_dict first ((key, v) # kvs)) @ 125 # rest) =
              Decoded (PDict (dict_of_pairs (acc @ map ?nk ((key, v) # kvs))), rest)) \<and>
          (\<not> first \<longrightarrow> length (fst (iterencode_dict first ((key, v) # kvs))) \<le> n \<longrightarrow>
            after_pair acc (fst (iterencode_dict first ((key, v) # kvs)) @ 125 # rest) (object_loop n) =
              Decoded (PDict (dict_of_pairs (acc @ map ?nk ((key, v) # kvs))), rest))"
    proof (intro conjI impI)
      assume "first" and "length (fst (iterencode_dict first ((key, v) # kvs))) < n"
      then obtain m where "n = Suc m" "length ?tv + length ?tl \<le> m"
        unfolding t using len by (cases n) simp_all
      with step [of m] \<open>first\<close>
      show "object_loop n acc (fst (iterencode_dict first ((key, v) # kvs)) @ 125 # rest) =
              Decoded (PDict (dict_of_pairs (acc @ map ?nk ((key, v) # kvs))), rest)"
        unfolding t by (simp add: ks')
    next
      assume "\<not> first" and "length (fst (iterencode_dict first ((key, v) # kvs))) \<le> n"
      then obtain m where m: "n = Suc m" "length ?tv + length ?tl \<le> m"
        unfolding t using len by (cases n) simp_all
      have "after_pair acc (44 # encode_basestring_ascii ks @ 58 # ?tv @ ?tl @ 125 # rest) (object_loop n) =
            object_loop n acc (encode_basestring_ascii ks @ 58 # ?tv @ ?tl @ 125 # rest)"
        by (simp add: after_pair_def encode_basestring_ascii_def)
      with step [OF m(2)] \<open>\<not> first\<close>
      show "after_pair acc (fst (iterencode_dict first ((key, v) # kvs)) @ 125 # rest) (object_loop n) =
              Decoded (PDict (dict_of_pairs (acc @ map ?nk ((key, v) # kvs))), rest)"
        unfolding t m(1) by (simp add: ks')
    qed
  qed
qed

subsection \<open>Encoding what the decoder read\<close>

lemma iterencode_norm:
  "json_value v \<longrightarrow> iterencode (norm v) = iterencode v"
  "(\<forall>x \<in> set vs. json_value x) \<longrightarrow> iterencode_list first (map norm vs) = iterencode_list first vs"
  "(\<forall>kv \<in> set kvs. json_key (fst kv) \<and> json_value (snd kv)) \<longrightarrow>
     iterencode_dict first'
       (map (\<lambda>kv. (PStr (combine (key_string (fst kv))), norm (snd kv))) kvs) =
     iterencode_dict first' kvs"
proof (induction v and first vs and first' kvs rule: iterencode_iterencode_list_iterencode_dict.induct)
  case (1 s)
  show ?case by (simp add: encode_combine)
next
  case (5 lst)
  then show ?case by (cases lst) simp_all
next
  case (6 dct)
  then show ?case by (cases dct) simp_all
next
  case (11 first key v rest)
  show ?case
  proof
    assume all: "\<forall>kv \<in> set ((key, v) # rest). json_key (fst kv) \<and> json_value (snd kv)"
    then obtain ks where ks: "key_text key = Inr ks" using key_text_json_key [of key] by auto
    with 11 [OF ks] all show "iterencode_dict first
       (map (\<lambda>kv. (PStr (combine (key_string (fst kv))), norm (snd kv))) ((key, v) # rest)) =
     iterencode_dict first ((key, v) # rest)"
      by (simp add: key_string_def encode_combine)
  qed
qed simp_all

lemma json_loads_encoded:
  assumes "json_value v" and "distinct_keys v"
  shows "json_loads (fst (iterencode v)) = Decoded (norm v)"
proof -
  from iterencode_start [OF assms(1)] obtain c t where
    c: "fst (iterencode v) = c # t" "value_start c" by blast
  have "scan_once (length (fst (iterencode v))) (fst (iterencode v) @ []) = Decoded (norm v, [])"
    using decode_encoded(1) [of v] assms by (simp add: delim_def)
  then show ?thesis
    using skip_ws_start [OF c(2), of t] by (simp add: json_loads_def c(1))
qed

subsection \<open>The dictionary of a generated licence\<close>

lemma combine_low: "\<forall>c \<in> set s. c < 55296 \<Longrightarrow> combine s = s"
  by (induction s rule: combine.induct) (simp_all add: astral_def is_high_def)

lemma combine_str: "combine (str s) = str s"
proof (rule combine_low)
  have "c < 55296" if "c \<in> set (str s)" for c
    using str_range [OF that] by simp
  then show "\<forall>c \<in> set (str s). c < 55296" by blast
qed

lemma json_value_addon: "json_value (AddonPlugin_to_dict a)"
  by (simp add: AddonPlugin_to_dict_def)

lemma distinct_keys_addon: "distinct_keys (AddonPlugin_to_dict a)"
  by (simp add: AddonPlugin_to_dict_def key_string_def combine_str) (simp add: str_def)

lemma json_value_license_id:
  "\<forall>v \<in> set (features l). json_value v \<Longrightarrow> int_fits (seats l) \<Longrightarrow>
   json_value (LicenseId_to_dict l)"
  by (simp add: LicenseId_to_dict_def json_value_addon)

lemma distinct_keys_license_id:
  "\<forall>v \<in> set (features l). distinct_keys v \<Longrightarrow> distinct_keys (LicenseId_to_dict l)"
  by (simp add: LicenseId_to_dict_def key_string_def combine_str distinct_keys_addon)
     (simp add: str_def)

lemma json_value_license: "well_formed l \<Longrightarrow> json_value (License_to_dict l)"
  by (auto simp: License_to_dict_def LicensePayload_to_dict_def well_formed_def
      json_value_license_id)

lemma distinct_keys_build_license: "distinct_keys (License_to_dict (build_license s e))"
proof -
  let ?lid = "append_addons 0 addon_plugins s e (LicenseId_new s e s)"
  have "features ?lid = []" by (simp add: append_addons_fields LicenseId_new_def)
  then have "distinct_keys (LicenseId_to_dict ?lid)"
    by (intro distinct_keys_license_id) simp
  moreover have "header (build_license s e) = [(str ''version'', PInt 1)]"
    "signature (build_license s e) = default_signature"
    by (simp_all add: build_license_def Let_def License_new_def)
  ultimately show ?thesis
    by (simp add: License_to_dict_def LicensePayload_to_dict_def build_license_licenses
        key_string_def combine_str)
       (simp add: str_def)
qed

text \<open>
  Claim C8.  For a licence that \<open>generate_license()\<close> returns, the text that is written can
  be decoded, and encoding the decoded value gives the same text again.  The text is made
  of ASCII characters, so that the bytes of the file are the characters of the text.
\<close>

theorem decode_encode_round_trip:
  assumes "generate_license tp s = (Inr lic, s')"
  shows "\<exists>text v. iterencode (License_to_dict lic) = (text, None) \<and>
           (\<forall>c \<in> set text. c < 128) \<and>
           json_loads text = Decoded v \<and> iterencode v = (text, None)"
proof -
  from generate_license_Inr [OF assms] obtain start "end" where
    lic: "lic = build_license start end" by blast
  let ?d = "License_to_dict lic"
  have wf: "well_formed lic" unfolding lic by (rule well_formed_build_license)
  then have e: "iterencode ?d = (canonical_license lic, None)" by (rule iterencode_license)
  have jv: "json_value ?d" using wf by (rule json_value_license)
  have dk: "distinct_keys ?d" unfolding lic by (rule distinct_keys_build_license)
  have "json_loads (fst (iterencode ?d)) = Decoded (norm ?d)"
    using jv dk by (rule json_loads_encoded)
  moreover have "iterencode (norm ?d) = iterencode ?d"
    using iterencode_norm(1) [of ?d] jv by simp
  moreover have "\<forall>c \<in> set (fst (iterencode ?d)). c < 128"
    using iterencode_range(1) [of ?d] by fastforce
  ultimately show ?thesis using e by simp
qed

theorem decode_encode_round_trip_witness:
  "\<exists>v. json_loads example_license_text = Decoded v \<and>
        iterencode v = (example_license_text, None)"
proof -
  let ?tp = "FixedTimeProvider (str ''2024-01-01 00:00:00'') (str ''2034-01-01 00:00:00'')"
  let ?lic = "build_license (str ''2024-01-01 00:00:00'') (str ''2034-01-01 00:00:00'')"
  have g: "generate_license ?tp () = (Inr ?lic, ())"
    by (simp add: generate_license_def FixedTimeProvider_def)
  have e: "iterencode (License_to_dict ?lic) = (example_license_text, None)"
    using iterencode_license [OF well_formed_build_license, of "str ''2024-01-01 00:00:00''"
        "str ''2034-01-01 00:00:00''"]
    by (simp only: canonical_example)
  from decode_encode_round_trip [OF g] show ?thesis
    unfolding e by blast
qed

end
